theory Spec2Isabelle
  imports Complex_Main "HOL-Library.Signed_Division" "HOL-Library.Log_Nat"
begin

section \<open>Animation export of mol*: the encoders of extensions/mp4-export\<close>

text \<open>
  The repository holds three export functions: \<open>encodeMp4Animation\<close> of
  \<^verbatim>\<open>src/extensions/mp4-export/encoder.ts\<close>, and two revisions of
  \<open>encodeWebmAnimation\<close>, the two files of \<^verbatim>\<open>unnamed/part_003\<close>: lines 129-230, embedded
  as \<open>encodeWebmAnimation\<close>, and lines 376-463, embedded as \<open>encodeWebmAnimation2\<close>.
  Each of them is a function from the state of the plugin before the call to the outcome
  of the call and the state after it.

  Conventions of the embedding.
  \<^item> A JavaScript number that the job receives (duration, frame rate, quantization
    parameter) is a finite double, which is a rational number: a \<open>rat\<close>. The arithmetic
    of the schedule is the arithmetic of doubles: every quotient and every product is
    rounded as IEEE 754 rounds it (section Numbers). A computed number that may fail to
    be finite (\<open>NaN\<close> or an infinity) is a \<open>rat option\<close>, \<open>None\<close> standing for "not a finite
    number". Pixel coordinates, sizes and sample indices are \<open>int\<close>.
  \<^item> A call into the encoder, the renderer, the animation manager or the animation
    loop may throw; the environment decides which call does (\<open>throws\<close>). Property
    setters, \<open>loop.stop\<close>, \<open>loop.resetTime\<close> and the progress reports \<open>ctx.update\<close> are total.
  \<^item> A statement is a \<open>step\<close>: it maps a state to the error it throws, if any, and
    the state it leaves. The local variables of the running job are fields of the state,
    set where the source declares them.
  \<^item> The work of ffmpeg after \<open>save\<close> is asynchronous and is not modelled: the state
    records each command with the frames, the size and the rate it was given.
\<close>

subsection \<open>Data\<close>

type_synonym color = nat

text \<open>Postprocessing properties: a property name mapped to its value.\<close>

type_synonym props = "string \<rightharpoonup> string"

record Viewport =
  vp_x :: int
  vp_y :: int
  vp_width :: int
  vp_height :: int

record Mp4EncoderParams =
  customBackground :: "color option"
  animation :: string
  postprocessing :: "props option"
  width :: int
  height :: int
  viewport :: Viewport
  fps :: "rat option"
  quantizationParameter :: "rat option"

text \<open>The part of \<open>plugin.canvas3d.props\<close> that the export reads and writes.\<close>

record canvas_props =
  backgroundColor :: color
  transparentBackground :: bool

text \<open>
  A frame is what \<open>pass.getImageData\<close> returns: the picture of the render state at the
  moment of the call (clock time, animation frame, canvas properties), at the size and
  viewport asked for.
\<close>

record frame =
  f_time :: "rat option"
  f_currentFrame :: int
  f_canvas :: "canvas_props option"
  f_width :: int
  f_height :: int
  f_viewport :: Viewport

text \<open>The in-process encoder of \<open>h264-mp4-encoder\<close>.\<close>

record H264MP4Encoder =
  enc_width :: int
  enc_height :: int
  frameRate :: rat
  enc_quantizationParameter :: rat
  initialized :: bool
  rgba_frames :: "frame list"
  enc_finalized :: bool
  deleted :: bool

text \<open>One \<open>ffmpeg(...)....save(file)\<close> command of fluent-ffmpeg.\<close>

record ffmpeg_command =
  videoCodec :: string
  input_width :: int
  input_height :: int
  input_rate :: rat
  input_frames :: "frame list"
  output_file :: string

text \<open>The calls that may throw; a call inside a sampling loop carries the index of the
  sample.\<close>

datatype site =
    CreateEncoder | Initialize | UpdateBackground | Play
  | Tick int | GetImageData int | AddFrameRgba int
  | Stop | Finalize | ReadFile
  | Delete | StopInFinally | LoopStart
  | Ffmpeg string

datatype error = ViewportExceeds | DurationNotSpecified | Threw site

text \<open>The environment: the duration that \<open>PluginStateAnimation.getDuration\<close> reports for an
  animation (\<open>None\<close> for undefined), the calls that throw, \<open>ctx.shouldUpdate\<close> at each
  sample, and the quantization parameter of a new encoder.\<close>

record env =
  getDuration :: "string \<Rightarrow> rat option"
  throws :: "site \<Rightarrow> bool"
  shouldUpdate :: "int \<Rightarrow> bool"
  hme_quantizationParameter :: rat

text \<open>
  The state: the canvas of the plugin (\<open>None\<close> when \<open>plugin.canvas3d\<close> is undefined), the
  image pass, the animation loop with the ticks it was given (time, current frame, frame
  count), the animation manager, the frames the pass has rendered, the progress of the
  task, what \<open>console.error\<close> has printed, the ffmpeg commands, and the local variables
  of the job.
\<close>

record state =
  canvas3d :: "canvas_props option"
  pass_postprocessing :: props
  background_updates :: nat
  isAnimating :: bool
  currentTime :: "rat option"
  currentFrame :: int
  ticks :: "(rat option \<times> int \<times> int) list"
  isPlaying :: bool
  rendered :: "frame list"
  ctx_message :: string
  ctx_current :: int
  ctx_max :: int
  console :: "error list"
  ffmpeg_commands :: "ffmpeg_command list"
  encoder :: "H264MP4Encoder option"
  image_data :: "frame option"
  images :: "frame list"
  stoppedAnimation :: bool
  finalized :: bool
  file_read :: "H264MP4Encoder option"

subsection \<open>Statements\<close>

type_synonym step = "state \<Rightarrow> error option \<times> state"

text \<open>A statement that cannot throw.\<close>

definition ok :: "(state \<Rightarrow> state) \<Rightarrow> step" where
  "ok f s = (None, f s)"

text \<open>A call that throws when the environment says so, and has its effect otherwise.\<close>

definition call :: "env \<Rightarrow> site \<Rightarrow> (state \<Rightarrow> state) \<Rightarrow> step" where
  "call E c f s = (if throws E c then (Some (Threw c), s) else (None, f s))"

text \<open>Statements in sequence: the first error ends the sequence.\<close>

fun run :: "step list \<Rightarrow> step" where
  "run [] s = (None, s)"
| "run (f # fs) s =
     (case f s of
        (None, s') \<Rightarrow> run fs s'
      | (Some e, s') \<Rightarrow> (Some e, s'))"

subsection \<open>Numbers\<close>

text \<open>
  A number of JavaScript is a double of IEEE 754: zero, or \<open>m * 2^e\<close> with a mantissa
  \<open>m\<close> of at most 53 bits and \<open>-1074 \<le> e \<le> 971\<close>, of either sign, or an infinity, or
  \<open>NaN\<close>. An arithmetic operation yields the double nearest to the exact result, a tie
  going to the even mantissa, and an infinity from \<open>2^1024 - 2^970\<close> on.

  \<open>round_even q\<close> is the integer nearest to \<open>q\<close>, a tie going to the even one.
\<close>

definition round_even :: "rat \<Rightarrow> int" where
  "round_even q =
     (let f = \<lfloor>q\<rfloor>; r = q - of_int f
      in if r < 1 / 2 then f else if 1 / 2 < r then f + 1 else if even f then f else f + 1)"

text \<open>The least positive double is \<open>1 / 2^1074\<close>; every finite double is a multiple of it.\<close>

definition emin :: nat where
  "emin = 1074"

text \<open>
  \<open>dbl x\<close> is the double nearest to the rational \<open>x\<close>, and \<open>None\<close> when that is an
  infinity. The magnitude of \<open>x\<close> is counted in multiples \<open>s\<close> of the least positive
  double. A mantissa has 53 bits: when \<open>s\<close> has more (\<open>floorlog 2 n\<close> is the number of
  bits of \<open>n\<close>), the \<open>k\<close> bits beyond them are rounded away. The sign of a zero is not
  modelled; it shows only in a quotient by that zero, which is not finite either way.
\<close>

definition dbl :: "rat \<Rightarrow> rat option" where
  "dbl x =
     (let s = \<bar>x\<bar> * 2 ^ emin;
          k = floorlog 2 (nat \<lfloor>s\<rfloor>) - 53;
          m = round_even (s / 2 ^ k)
      in if 2 ^ (emin + 1024) \<le> m * 2 ^ k then None
         else Some (sgn x * of_int (m * 2 ^ k) / 2 ^ emin))"

text \<open>The quotient of two finite doubles: \<open>NaN\<close> or an infinity when the divisor is 0, the
  rounded quotient otherwise.\<close>

definition js_div :: "rat \<Rightarrow> rat \<Rightarrow> rat option" where
  "js_div a b = (if b = 0 then None else dbl (a / b))"

text \<open>The product of two numbers: the rounded product of two finite doubles; a product
  with \<open>NaN\<close> or with an infinity is not finite.\<close>

definition js_mul :: "rat option \<Rightarrow> rat option \<Rightarrow> rat option" where
  "js_mul a b = (case (a, b) of (Some x, Some y) \<Rightarrow> dbl (x * y) | _ \<Rightarrow> None)"

text \<open>\<open>Math.ceil\<close>: the ceiling of a finite double is an integer and a double. \<open>Math.ceil\<close> of
  \<open>NaN\<close> or of an infinity is that value again, which is no integer: the sample counts of
  this theory are integers, and 0 stands in for it: a sample count of this theory is the
  one of the source when the product is finite.\<close>

definition js_ceil :: "rat option \<Rightarrow> int" where
  "js_ceil a = (case a of Some x \<Rightarrow> \<lceil>x\<rceil> | None \<Rightarrow> 0)"

text \<open>
  \<open>const N = Math.ceil(durationMs / 1000 * fps); const dt = durationMs / N;\<close> The quotient
  by 1000 is rounded, then the product is rounded, then the ceiling is taken. The counter
  \<open>i\<close> of the sampling loops (\<open>for (let i = 0; i <= N; i++)\<close>) is an integer here: it is
  the double of the source as long as it is below \<open>2^53\<close>, where \<open>i++\<close> stops counting
  (\<open>2^53 + 1\<close> is no double). So is the sum \<open>N + 1\<close> that the progress reports.
\<close>

definition sampleCount :: "rat \<Rightarrow> rat \<Rightarrow> int" where
  "sampleCount durationMs fps' = js_ceil (js_mul (js_div durationMs 1000) (Some fps'))"

definition stepMs :: "rat \<Rightarrow> int \<Rightarrow> rat option" where
  "stepMs durationMs N = js_div durationMs (of_int N)"

subsection \<open>The collaborators\<close>

text \<open>
  Modelled from the spec: \<open>ParamDefinition.merge\<close> is not part of the sources. The
  overrides are merged into the properties of the pass, and an override wins where both
  have the key; without overrides the properties are kept.
\<close>

definition merge :: "props \<Rightarrow> props option \<Rightarrow> props" where
  "merge a b = (case b of None \<Rightarrow> a | Some b' \<Rightarrow> a ++ b')"

definition ctx_update :: "string \<Rightarrow> state \<Rightarrow> state" where
  "ctx_update m s = s\<lparr>ctx_message := m\<rparr>"

definition ctx_update_rendering :: "int \<Rightarrow> state \<Rightarrow> state" where
  "ctx_update_rendering n s = s\<lparr>ctx_message := ''Rendering...'', ctx_current := 0, ctx_max := n\<rparr>"

definition ctx_update_current :: "int \<Rightarrow> state \<Rightarrow> state" where
  "ctx_update_current n s = s\<lparr>ctx_current := n\<rparr>"

definition pass_setProps :: "props option \<Rightarrow> state \<Rightarrow> state" where
  "pass_setProps pp s = s\<lparr>pass_postprocessing := merge (pass_postprocessing s) pp\<rparr>"

definition pass_updateBackground :: "state \<Rightarrow> state" where
  "pass_updateBackground s = s\<lparr>background_updates := Suc (background_updates s)\<rparr>"

definition loop_stop :: "state \<Rightarrow> state" where
  "loop_stop s = s\<lparr>isAnimating := False\<rparr>"

definition loop_start :: "state \<Rightarrow> state" where
  "loop_start s = s\<lparr>isAnimating := True\<rparr>"

definition loop_resetTime :: "rat \<Rightarrow> state \<Rightarrow> state" where
  "loop_resetTime t s = s\<lparr>currentTime := Some t\<rparr>"

definition loop_tick :: "rat option \<Rightarrow> int \<Rightarrow> int \<Rightarrow> state \<Rightarrow> state" where
  "loop_tick t i n s =
     s\<lparr>currentTime := t, currentFrame := i, ticks := ticks s @ [(t, i, n)]\<rparr>"

definition animation_play :: "state \<Rightarrow> state" where
  "animation_play s = s\<lparr>isPlaying := True\<rparr>"

definition animation_stop :: "state \<Rightarrow> state" where
  "animation_stop s = s\<lparr>isPlaying := False\<rparr>"

text \<open>\<open>plugin.canvas3d?.setProps\<close>: nothing happens without a canvas; an undefined
  value leaves the property as it is.\<close>

definition canvas3d_setProps :: "color option \<Rightarrow> bool option \<Rightarrow> state \<Rightarrow> state" where
  "canvas3d_setProps bg tr s =
     s\<lparr>canvas3d :=
         map_option
           (\<lambda>c. c\<lparr>backgroundColor := (case bg of None \<Rightarrow> backgroundColor c | Some b \<Rightarrow> b),
                  transparentBackground :=
                    (case tr of None \<Rightarrow> transparentBackground c | Some t \<Rightarrow> t)\<rparr>)
           (canvas3d s)\<rparr>"

definition getImageData :: "int \<Rightarrow> int \<Rightarrow> Viewport \<Rightarrow> state \<Rightarrow> frame" where
  "getImageData w h vp s =
     \<lparr>f_time = currentTime s, f_currentFrame = currentFrame s, f_canvas = canvas3d s,
      f_width = w, f_height = h, f_viewport = vp\<rparr>"

definition pass_getImageData :: "int \<Rightarrow> int \<Rightarrow> Viewport \<Rightarrow> state \<Rightarrow> state" where
  "pass_getImageData w h vp s =
     s\<lparr>rendered := rendered s @ [getImageData w h vp s],
       image_data := Some (getImageData w h vp s)\<rparr>"

text \<open>\<open>HME.createH264MP4Encoder()\<close>; the frame rate of a new encoder is 30, as the
  comment on \<open>fps\<close> in \<open>Mp4EncoderParams\<close> says. Its quantization parameter is the
  default of the library, which the environment names.\<close>

definition new_H264MP4Encoder :: "env \<Rightarrow> H264MP4Encoder" where
  "new_H264MP4Encoder E =
     \<lparr>enc_width = 0, enc_height = 0, frameRate = 30,
      enc_quantizationParameter = hme_quantizationParameter E, initialized = False,
      rgba_frames = [], enc_finalized = False, deleted = False\<rparr>"

definition createH264MP4Encoder :: "env \<Rightarrow> state \<Rightarrow> state" where
  "createH264MP4Encoder E s = s\<lparr>encoder := Some (new_H264MP4Encoder E)\<rparr>"

definition on_encoder :: "(H264MP4Encoder \<Rightarrow> H264MP4Encoder) \<Rightarrow> state \<Rightarrow> state" where
  "on_encoder f s = s\<lparr>encoder := map_option f (encoder s)\<rparr>"

definition addFrameRgba :: "state \<Rightarrow> state" where
  "addFrameRgba s =
     (case image_data s of
        None \<Rightarrow> s
      | Some im \<Rightarrow> on_encoder (\<lambda>e. e\<lparr>rgba_frames := rgba_frames e @ [im]\<rparr>) s)"

definition readFile :: "state \<Rightarrow> state" where
  "readFile s = s\<lparr>file_read := encoder s\<rparr>"

subsection \<open>Validation and normalization\<close>

definition validateViewport :: "Mp4EncoderParams \<Rightarrow> error option" where
  "validateViewport p =
     (if vp_x (viewport p) + vp_width (viewport p) > width p
         \<or> vp_y (viewport p) + vp_height (viewport p) > height p
      then Some ViewportExceeds else None)"

text \<open>\<open>if (vw % 2 !== 0) vw -= 1\<close>; the remainder of JavaScript takes the sign of the
  dividend.\<close>

definition even_down :: "int \<Rightarrow> int" where
  "even_down v = (if v smod 2 \<noteq> 0 then v - 1 else v)"

definition normalizedViewport :: "Mp4EncoderParams \<Rightarrow> Viewport" where
  "normalizedViewport p =
     (viewport p)\<lparr>vp_width := even_down (vp_width (viewport p)),
                  vp_height := even_down (vp_height (viewport p))\<rparr>"

definition truthy :: "rat option \<Rightarrow> bool" where
  "truthy v = (case v of None \<Rightarrow> False | Some r \<Rightarrow> r \<noteq> 0)"

subsection \<open>encodeMp4Animation (encoder.ts, lines 37-133)\<close>

text \<open>Lines 73-76: the encoder receives the normalized size and the truthy options.\<close>

definition configure :: "Mp4EncoderParams \<Rightarrow> H264MP4Encoder \<Rightarrow> H264MP4Encoder" where
  "configure p e =
     (let e1 = e\<lparr>enc_width := vp_width (normalizedViewport p),
                 enc_height := vp_height (normalizedViewport p)\<rparr>;
          e2 = (if truthy (quantizationParameter p)
                then e1\<lparr>enc_quantizationParameter := the (quantizationParameter p)\<rparr> else e1)
      in if truthy (fps p) then e2\<lparr>frameRate := the (fps p)\<rparr> else e2)"

text \<open>Lines 46-77: the encoder is created, configured and initialized.\<close>

definition mp4_setup :: "env \<Rightarrow> Mp4EncoderParams \<Rightarrow> step" where
  "mp4_setup E p =
     run [call E CreateEncoder (createH264MP4Encoder E),
          ok (on_encoder (configure p)),
          call E Initialize (on_encoder (\<lambda>e. e\<lparr>initialized := True\<rparr>))]"

text \<open>One round of the loop of lines 105-114.\<close>

definition mp4_sample :: "env \<Rightarrow> Mp4EncoderParams \<Rightarrow> int \<Rightarrow> rat option \<Rightarrow> int \<Rightarrow> step" where
  "mp4_sample E p N dt i =
     run [call E (Tick i) (loop_tick (js_mul (Some (of_int i)) dt) i N),
          call E (GetImageData i) (pass_getImageData (width p) (height p) (normalizedViewport p)),
          call E (AddFrameRgba i) addFrameRgba,
          ok (\<lambda>s. if shouldUpdate E i then ctx_update_current (i + 1) s else s)]"

function mp4_loop :: "env \<Rightarrow> Mp4EncoderParams \<Rightarrow> int \<Rightarrow> rat option \<Rightarrow> int \<Rightarrow> step" where
  "mp4_loop E p N dt i s =
     (if i \<le> N then
        (case mp4_sample E p N dt i s of
           (None, s') \<Rightarrow> mp4_loop E p N dt (i + 1) s'
         | (Some e, s') \<Rightarrow> (Some e, s'))
      else (None, s))"
  by pat_completeness auto
termination
  by (relation "measure (\<lambda>(E, p, N, dt, i, s). nat (N + 1 - i))") auto

text \<open>
  The \<open>try\<close> block, lines 88-123. The encoder exists when the block is entered, and
  \<open>fps\<close> is its frame rate; the other case of the \<open>case\<close> is never reached. A flag that
  the source sets in the statement after a call (\<open>stoppedAnimation\<close> after \<open>play\<close> and
  after \<open>stop\<close>, \<open>finalized\<close> after \<open>finalize\<close>) is set in the step of the call: it is
  set exactly when the call has returned.
\<close>

definition mp4_try :: "env \<Rightarrow> Mp4EncoderParams \<Rightarrow> rat \<Rightarrow> step" where
  "mp4_try E p durationMs s =
     (let fps' = (case encoder s of None \<Rightarrow> 0 | Some e \<Rightarrow> frameRate e);
          N = sampleCount durationMs fps';
          dt = stepMs durationMs N
      in run [ok loop_stop,
              ok (loop_resetTime 0),
              ok (case customBackground p of
                    None \<Rightarrow> id
                  | Some c \<Rightarrow> canvas3d_setProps (Some c) (Some False)),
              ok (ctx_update_rendering (N + 1)),
              call E UpdateBackground pass_updateBackground,
              call E Play (\<lambda>s. (animation_play s)\<lparr>stoppedAnimation := False\<rparr>),
              mp4_loop E p N dt 0,
              ok (ctx_update ''Applying finishing touches...''),
              call E Stop (\<lambda>s. (animation_stop s)\<lparr>stoppedAnimation := True\<rparr>),
              call E Finalize
                (\<lambda>s. (on_encoder (\<lambda>e. e\<lparr>enc_finalized := True\<rparr>) s)\<lparr>finalized := True\<rparr>),
              call E ReadFile readFile] s)"

text \<open>The \<open>finally\<close> block, lines 125-132; \<open>canvasProps\<close> and \<open>wasAnimating\<close> are the
  snapshot of lines 80-81.\<close>

definition mp4_finally ::
  "env \<Rightarrow> Mp4EncoderParams \<Rightarrow> canvas_props option \<Rightarrow> bool \<Rightarrow> step" where
  "mp4_finally E p canvasProps wasAnimating =
     run [(\<lambda>s. if finalized s then call E Delete (on_encoder (\<lambda>e. e\<lparr>deleted := True\<rparr>)) s
                else (None, s)),
          ok (case customBackground p of
                None \<Rightarrow> id
              | Some c \<Rightarrow>
                  canvas3d_setProps (map_option backgroundColor canvasProps)
                    (map_option transparentBackground canvasProps)),
          (\<lambda>s. if \<not> stoppedAnimation s then call E StopInFinally animation_stop s
                else (None, s)),
          (\<lambda>s. if wasAnimating then call E LoopStart loop_start s else (None, s))]"

text \<open>
  The function. Lines 79-86 take the snapshot \<open>canvasProps\<close> and \<open>wasAnimating\<close>, set the
  two flags and merge the postprocessing overrides into the pass. An error thrown by the
  \<open>finally\<close> block replaces the outcome of the \<open>try\<close> block, as in JavaScript; otherwise
  the outcome of the \<open>try\<close> block stands: its error, or the file read from the encoder.
\<close>

definition encodeMp4Animation ::
  "env \<Rightarrow> Mp4EncoderParams \<Rightarrow> state \<Rightarrow> (error + H264MP4Encoder option) \<times> state" where
  "encodeMp4Animation E p s0 =
     (let s1 = ctx_update ''Initializing...'' s0 in
      case validateViewport p of
        Some e \<Rightarrow> (Inl e, s1)
      | None \<Rightarrow>
          (case getDuration E (animation p) of
             None \<Rightarrow> (Inl DurationNotSpecified, s1)
           | Some durationMs \<Rightarrow>
               (case mp4_setup E p s1 of
                  (Some e, s2) \<Rightarrow> (Inl e, s2)
                | (None, s2) \<Rightarrow>
                    (let canvasProps = canvas3d s2;
                         wasAnimating = isAnimating s2;
                         s2' = pass_setProps (postprocessing p)
                                 (s2\<lparr>stoppedAnimation := True, finalized := False\<rparr>)
                     in case mp4_try E p durationMs s2' of
                          (r, s3) \<Rightarrow>
                            (case mp4_finally E p canvasProps wasAnimating s3 of
                               (Some e', s4) \<Rightarrow> (Inl e', s4)
                             | (None, s4) \<Rightarrow>
                                 (case r of
                                    Some e \<Rightarrow> (Inl e, s4)
                                  | None \<Rightarrow> (Inr (file_read s4), s4)))))))"

subsection \<open>encodeWebmAnimation (part_003, lines 129-230)\<close>

text \<open>\<open>if (!params.fps) params.fps = 30;\<close> and the later \<open>const fps = params.fps\<close>: the
  frame rate of the job. The assignment to the parameters of the caller is not modelled
  otherwise.\<close>

definition fps_of :: "Mp4EncoderParams \<Rightarrow> rat" where
  "fps_of p = (if truthy (fps p) then the (fps p) else 30)"

text \<open>One round of the loop: tick, capture, \<open>images.push\<close>.\<close>

definition webm_sample :: "env \<Rightarrow> Mp4EncoderParams \<Rightarrow> int \<Rightarrow> rat option \<Rightarrow> int \<Rightarrow> step" where
  "webm_sample E p N dt i =
     run [call E (Tick i) (loop_tick (js_mul (Some (of_int i)) dt) i N),
          call E (GetImageData i) (pass_getImageData (width p) (height p) (normalizedViewport p)),
          ok (\<lambda>s. case image_data s of None \<Rightarrow> s | Some im \<Rightarrow> s\<lparr>images := images s @ [im]\<rparr>)]"

function webm_loop :: "env \<Rightarrow> Mp4EncoderParams \<Rightarrow> int \<Rightarrow> rat option \<Rightarrow> int \<Rightarrow> step" where
  "webm_loop E p N dt i s =
     (if i \<le> N then
        (case webm_sample E p N dt i s of
           (None, s') \<Rightarrow> webm_loop E p N dt (i + 1) s'
         | (Some e, s') \<Rightarrow> (Some e, s'))
      else (None, s))"
  by pat_completeness auto
termination
  by (relation "measure (\<lambda>(E, p, N, dt, i, s). nat (N + 1 - i))") auto

text \<open>\<open>ffmpeg(Readable.from(images))...addInputOption([-s WxH, -pix_fmt rgba, -r fps])...save(file)\<close>:
  the command is handed the frames collected so far, the size \<open>width\<close> x \<open>height\<close> of
  the parameters and the frame rate.\<close>

definition ffmpeg_save :: "string \<Rightarrow> Mp4EncoderParams \<Rightarrow> string \<Rightarrow> state \<Rightarrow> state" where
  "ffmpeg_save codec p file s =
     s\<lparr>ffmpeg_commands := ffmpeg_commands s @
         [\<lparr>videoCodec = codec, input_width = width p, input_height = height p,
           input_rate = fps_of p, input_frames = images s, output_file = file\<rparr>]\<rparr>"

text \<open>The body of the \<open>try\<close> block, lines 131-225.\<close>

definition webm_try :: "env \<Rightarrow> Mp4EncoderParams \<Rightarrow> string \<Rightarrow> step" where
  "webm_try E p outputFilename s0 =
     (let s1 = ctx_update ''Initializing...'' s0 in
      case validateViewport p of
        Some e \<Rightarrow> (Some e, s1)
      | None \<Rightarrow>
          (case getDuration E (animation p) of
             None \<Rightarrow> (Some DurationNotSpecified, s1)
           | Some durationMs \<Rightarrow>
               (let N = sampleCount durationMs (fps_of p);
                    dt = stepMs durationMs N
                in run [ok (pass_setProps (postprocessing p)),
                        ok loop_stop,
                        ok (loop_resetTime 0),
                        ok (case customBackground p of
                              None \<Rightarrow> id
                            | Some c \<Rightarrow> canvas3d_setProps (Some c) (Some True)),
                        ok (ctx_update_rendering (N + 1)),
                        call E UpdateBackground pass_updateBackground,
                        call E Play animation_play,
                        ok (\<lambda>s. s\<lparr>images := []\<rparr>),
                        webm_loop E p N dt 0,
                        call E (Ffmpeg (outputFilename @ ''.mov''))
                          (ffmpeg_save ''hevc_nvenc'' p (outputFilename @ ''.mov'')),
                        call E (Ffmpeg (outputFilename @ ''.webm''))
                          (ffmpeg_save ''libvpx-vp9'' p (outputFilename @ ''.webm''))] s1)))"

text \<open>\<open>catch (e) { console.error(e) }\<close>: the function returns normally in every case.\<close>

definition encodeWebmAnimation ::
  "env \<Rightarrow> Mp4EncoderParams \<Rightarrow> string \<Rightarrow> state \<Rightarrow> (error + unit) \<times> state" where
  "encodeWebmAnimation E p outputFilename s0 =
     (case webm_try E p outputFilename s0 of
        (None, s') \<Rightarrow> (Inr (), s')
      | (Some e, s') \<Rightarrow> (Inr (), s'\<lparr>console := console s' @ [e]\<rparr>))"

subsection \<open>encodeWebmAnimation, the other revision (part_003, lines 376-463)\<close>

text \<open>The body of the \<open>try\<close> block, lines 380-457.\<close>

definition webm2_try :: "env \<Rightarrow> Mp4EncoderParams \<Rightarrow> step" where
  "webm2_try E p s0 =
     (let outputFilename = ''../outputs_1qtn-4/video.webm'';
          s1 = ctx_update ''Initializing...'' s0 in
      case validateViewport p of
        Some e \<Rightarrow> (Some e, s1)
      | None \<Rightarrow>
          (case getDuration E (animation p) of
             None \<Rightarrow> (Some DurationNotSpecified, s1)
           | Some durationMs \<Rightarrow>
               (let N = sampleCount durationMs (fps_of p);
                    dt = stepMs durationMs N
                in run [ok (pass_setProps (postprocessing p)),
                        ok loop_stop,
                        ok (loop_resetTime 0),
                        ok (case customBackground p of
                              None \<Rightarrow> id
                            | Some c \<Rightarrow> canvas3d_setProps (Some c) (Some False)),
                        ok (ctx_update_rendering (N + 1)),
                        call E UpdateBackground pass_updateBackground,
                        call E Play animation_play,
                        ok (\<lambda>s. s\<lparr>images := []\<rparr>),
                        webm_loop E p N dt 0,
                        call E (Ffmpeg outputFilename)
                          (ffmpeg_save ''libvpx-vp9'' p outputFilename)] s1)))"

text \<open>
  The function returns a promise whose executor is the \<open>try\<close> block. The executor never
  calls \<open>resolve\<close>, and \<open>reject\<close> only from the error event of ffmpeg, after the executor
  has returned: when the executor returns the promise is pending (\<open>None\<close>), whether the
  block ran to its end or an error was caught and printed.
\<close>

definition encodeWebmAnimation2 ::
  "env \<Rightarrow> Mp4EncoderParams \<Rightarrow> state \<Rightarrow> (error + unit) option \<times> state" where
  "encodeWebmAnimation2 E p s0 =
     (case webm2_try E p s0 of
        (None, s') \<Rightarrow> (None, s')
      | (Some e, s') \<Rightarrow> (None, s'\<lparr>console := console s' @ [e]\<rparr>))"

subsection \<open>Notions used in the statements\<close>

text \<open>The frame that sample \<open>k\<close> yields when the canvas has the properties \<open>c\<close>.\<close>

definition sample_frame :: "Mp4EncoderParams \<Rightarrow> rat option \<Rightarrow> canvas_props option \<Rightarrow> int \<Rightarrow> frame" where
  "sample_frame p dt c k =
     \<lparr>f_time = js_mul (Some (of_int k)) dt, f_currentFrame = k, f_canvas = c,
      f_width = width p, f_height = height p, f_viewport = normalizedViewport p\<rparr>"

text \<open>The canvas properties that a custom background leaves, with the flag it sets.\<close>

definition overridden :: "Mp4EncoderParams \<Rightarrow> bool \<Rightarrow> canvas_props option \<Rightarrow> canvas_props option" where
  "overridden p t c =
     (case customBackground p of
        None \<Rightarrow> c
      | Some b \<Rightarrow> map_option (\<lambda>_. \<lparr>backgroundColor = b, transparentBackground = t\<rparr>) c)"

text \<open>The state in which a job enters the \<open>try\<close> block of \<open>encodeMp4Animation\<close>.\<close>

definition try_entry :: "env \<Rightarrow> Mp4EncoderParams \<Rightarrow> state \<Rightarrow> state" where
  "try_entry E p s =
     pass_setProps (postprocessing p)
       ((snd (mp4_setup E p (ctx_update ''Initializing...'' s)))
        \<lparr>stoppedAnimation := True, finalized := False\<rparr>)"

text \<open>What a sampling loop keeps: everything but the clock, the frames and the progress.\<close>

definition sampling_keeps :: "state \<Rightarrow> state \<Rightarrow> bool" where
  "sampling_keeps s s' =
     (canvas3d s' = canvas3d s \<and> pass_postprocessing s' = pass_postprocessing s
      \<and> background_updates s' = background_updates s \<and> isAnimating s' = isAnimating s
      \<and> isPlaying s' = isPlaying s \<and> ctx_max s' = ctx_max s \<and> console s' = console s
      \<and> ffmpeg_commands s' = ffmpeg_commands s \<and> stoppedAnimation s' = stoppedAnimation s
      \<and> finalized s' = finalized s \<and> file_read s' = file_read s
      \<and> map_option (rgba_frames_update (\<lambda>_. [])) (encoder s')
          = map_option (rgba_frames_update (\<lambda>_. [])) (encoder s))"

text \<open>What holds between the statements of the \<open>try\<close> block of \<open>encodeMp4Animation\<close>, from
  the progress report of line 100 on, and when the block is left by return or by throw;
  \<open>s\<close> is the state in which the block was entered.\<close>

definition in_try :: "Mp4EncoderParams \<Rightarrow> rat \<Rightarrow> state \<Rightarrow> state \<Rightarrow> bool" where
  "in_try p d s s' =
     (isAnimating s' = False
      \<and> pass_postprocessing s' = pass_postprocessing s
      \<and> console s' = console s
      \<and> canvas3d s' = (case customBackground p of None \<Rightarrow> canvas3d s
           | Some c \<Rightarrow> map_option (\<lambda>_. \<lparr>backgroundColor = c, transparentBackground = False\<rparr>) (canvas3d s))
      \<and> (stoppedAnimation s' \<longrightarrow> isPlaying s' \<longrightarrow> isPlaying s)
      \<and> (case (encoder s, encoder s') of
            (Some e, Some e') \<Rightarrow> frameRate e' = frameRate e
               \<and> enc_quantizationParameter e' = enc_quantizationParameter e
               \<and> enc_width e' = enc_width e \<and> enc_height e' = enc_height e
               \<and> initialized e' = initialized e
               \<and> enc_finalized e' = finalized s' \<and> deleted e' = False
               \<and> ctx_max s' = sampleCount d (frameRate e) + 1
          | _ \<Rightarrow> False))"

subsection \<open>Jobs, environments and a plugin state to run them in\<close>

text \<open>A plugin at rest: the clock runs, nothing plays, the background is transparent.\<close>

definition idle :: state where
  "idle = \<lparr>canvas3d = Some \<lparr>backgroundColor = 7, transparentBackground = True\<rparr>,
     pass_postprocessing = Map.empty, background_updates = 0, isAnimating = True,
     currentTime = Some 12, currentFrame = 0, ticks = [], isPlaying = False, rendered = [],
     ctx_message = [], ctx_current = 0, ctx_max = 0, console = [], ffmpeg_commands = [],
     encoder = None, image_data = None, images = [], stoppedAnimation = True, finalized = False,
     file_read = None\<rparr>"

text \<open>An environment in which every animation lasts \<open>d\<close> milliseconds and exactly the
  calls listed in \<open>cs\<close> throw.\<close>

definition env_of :: "rat \<Rightarrow> site list \<Rightarrow> env" where
  "env_of d cs = \<lparr>getDuration = (\<lambda>_. Some d), throws = (\<lambda>c. c \<in> set cs),
     shouldUpdate = (\<lambda>_. True), hme_quantizationParameter = 33\<rparr>"

text \<open>Scenario A of the specification: 800 x 800, full viewport, 30 frames per second.\<close>

definition scenarioA :: Mp4EncoderParams where
  "scenarioA = \<lparr>customBackground = None, animation = ''built-in.animate-camera-spin'',
     postprocessing = None, width = 800, height = 800,
     viewport = \<lparr>vp_x = 0, vp_y = 0, vp_width = 800, vp_height = 800\<rparr>,
     fps = Some 30, quantizationParameter = Some 18\<rparr>"

text \<open>Scenario B: the viewport is one pixel wider than the canvas.\<close>

definition scenarioB :: Mp4EncoderParams where
  "scenarioB = scenarioA\<lparr>viewport := \<lparr>vp_x = 0, vp_y = 0, vp_width = 801, vp_height = 800\<rparr>\<rparr>"

text \<open>A job with a custom background and a postprocessing override, at the default
  frame rate.\<close>

definition styled :: Mp4EncoderParams where
  "styled = scenarioA\<lparr>customBackground := Some 3, postprocessing := Some [''outline'' \<mapsto> ''on''],
     fps := None\<rparr>"

text \<open>A job whose canvas and viewport are 801 x 801.\<close>

definition odd_sized :: Mp4EncoderParams where
  "odd_sized = scenarioA\<lparr>width := 801, height := 801,
     viewport := \<lparr>vp_x = 0, vp_y = 0, vp_width = 801, vp_height = 801\<rparr>\<rparr>"

text \<open>The plugin at rest with an opaque background.\<close>

definition opaque :: state where
  "opaque = idle\<lparr>canvas3d := Some \<lparr>backgroundColor = 7, transparentBackground = False\<rparr>\<rparr>"

text \<open>A job that passes 0 for both options of the encoder.\<close>

definition unset_options :: Mp4EncoderParams where
  "unset_options = scenarioA\<lparr>fps := Some 0, quantizationParameter := Some 0\<rparr>"

text \<open>Scenario A at 25 frames per second.\<close>

definition pal :: Mp4EncoderParams where
  "pal = scenarioA\<lparr>fps := Some 25\<rparr>"

section \<open>Properties\<close>

subsection \<open>Doubles\<close>

text \<open>Rounding to the nearest integer is within one half, and is monotone at the
  integers.\<close>

lemma round_even_upper: "of_int (round_even q) \<le> q + 1 / 2"
  unfolding round_even_def Let_def by (simp split: if_splits) linarith

lemma round_even_lower: "q - 1 / 2 \<le> of_int (round_even q)"
  unfolding round_even_def Let_def by (simp split: if_splits) linarith

lemma round_even_le_int: "q \<le> of_int n \<Longrightarrow> round_even q \<le> n"
proof -
  assume "q \<le> of_int n"
  then have "(of_int (round_even q) :: rat) < of_int (n + 1)"
    using round_even_upper [of q] by simp
  then have "round_even q < n + 1" by (simp only: of_int_less_iff)
  then show ?thesis by simp
qed

lemma round_even_ge_int: "of_int n \<le> q \<Longrightarrow> n \<le> round_even q"
proof -
  assume "of_int n \<le> q"
  then have "(of_int (n - 1) :: rat) < of_int (round_even q)"
    using round_even_lower [of q] by simp
  then have "n - 1 < round_even q" by (simp only: of_int_less_iff)
  then show ?thesis by simp
qed

lemma round_even_of_int: "round_even (of_int n) = n"
  by (simp add: round_even_def)

text \<open>The number of bits of the integer part of a rational between two powers of 2.\<close>

lemma floorlog_floor:
  fixes s :: rat
  assumes "2 ^ c \<le> s" "s < 2 ^ Suc c"
  shows "floorlog 2 (nat \<lfloor>s\<rfloor>) = Suc c"
proof -
  have "(of_int (2 ^ c) :: rat) \<le> s" using assms(1) by simp
  then have l: "(2::int) ^ c \<le> \<lfloor>s\<rfloor>" by (simp only: le_floor_iff)
  have "s < of_int (2 ^ Suc c)" using assms(2) by simp
  then have u: "\<lfloor>s\<rfloor> < (2::int) ^ Suc c" by (simp only: floor_less_iff)
  have l': "(2::nat) ^ c \<le> nat \<lfloor>s\<rfloor>" using l by (simp add: le_nat_iff)
  have "(0::int) \<le> 2 ^ c" by simp
  then have "0 \<le> \<lfloor>s\<rfloor>" using l by (rule order_trans)
  then have u': "nat \<lfloor>s\<rfloor> < (2::nat) ^ Suc c" using u by (simp add: nat_less_iff)
  have "floorlog 2 (nat \<lfloor>s\<rfloor>) \<le> Suc c" using u' by (intro floorlog_leI) simp_all
  moreover have "Suc c \<le> floorlog 2 (nat \<lfloor>s\<rfloor>)" using l' by (intro floorlog_ge_SucI) simp_all
  ultimately show ?thesis by simp
qed

lemma floorlog_floor_bounds:
  fixes s :: rat
  assumes "53 < floorlog 2 (nat \<lfloor>s\<rfloor>)" "k = floorlog 2 (nat \<lfloor>s\<rfloor>) - 53"
  shows "2 ^ 52 * 2 ^ k \<le> s" "s < 2 ^ 53 * 2 ^ k"
proof -
  let ?n = "nat \<lfloor>s\<rfloor>" and ?b = "floorlog 2 (nat \<lfloor>s\<rfloor>)"
  have n: "0 < ?n" using assms(1) by (cases "?n = 0") (simp_all add: floorlog_def)
  have b: "?b = k + 53" "?b - 1 = k + 52" using assms by simp_all
  have "(2::nat) ^ (?b - 1) \<le> ?n \<and> ?n < 2 ^ ?b" using n by (intro floorlog_bounds) simp_all
  then have l: "(2::nat) ^ (k + 52) \<le> ?n" and u: "?n < (2::nat) ^ (k + 53)"
    unfolding b(1) by (simp_all add: add.commute)
  have sp: "0 \<le> \<lfloor>s\<rfloor>" using n by simp
  have "int ((2::nat) ^ (k + 52)) \<le> int ?n" using l by (simp only: of_nat_le_iff)
  then have "(2::int) ^ (k + 52) \<le> \<lfloor>s\<rfloor>" using sp by simp
  then have "(of_int (2 ^ (k + 52)) :: rat) \<le> s" by (simp only: le_floor_iff)
  then show "2 ^ 52 * 2 ^ k \<le> s" by (simp add: power_add mult.commute)
  have "int ?n < int ((2::nat) ^ (k + 53))" using u by (simp only: of_nat_less_iff)
  then have "\<lfloor>s\<rfloor> < (2::int) ^ (k + 53)" using sp by simp
  then have "s < of_int (2 ^ (k + 53))" by (simp only: floor_less_iff)
  then show "s < 2 ^ 53 * 2 ^ k" by (simp add: power_add mult.commute)
qed


text \<open>\<open>dbl\<close> of a number that is not negative, with names for the parts of the definition.\<close>

lemma dbl_unfold:
  assumes "0 \<le> x" "s = x * 2 ^ emin" "k = floorlog 2 (nat \<lfloor>s\<rfloor>) - 53"
    "m = round_even (s / 2 ^ k)"
  shows "dbl x = (if 2 ^ (emin + 1024) \<le> m * 2 ^ k then None
                  else Some (sgn x * of_int (m * 2 ^ k) / 2 ^ emin))"
proof -
  have "\<bar>x\<bar> = x" using assms(1) by simp
  then show ?thesis unfolding dbl_def Let_def assms by simp
qed

text \<open>A finite result is a mantissa \<open>m\<close> times \<open>2^k\<close> least doubles; the mantissa is within one
  half of the exact one, and from \<open>k = 1\<close> on the number is at least \<open>2^52 * 2^k\<close> least
  doubles.\<close>

lemma dbl_scaled:
  assumes "0 \<le> x" "dbl x = Some y"
  shows "\<exists>k m. y * 2 ^ emin = of_int m * 2 ^ k
           \<and> \<bar>of_int m - x * 2 ^ emin / 2 ^ k\<bar> \<le> 1 / 2
           \<and> 0 \<le> m \<and> m * 2 ^ k < 2 ^ (emin + 1024)
           \<and> (k = 0 \<or> 2 ^ 52 * 2 ^ k \<le> x * 2 ^ emin)"
proof -
  define s where "s = x * 2 ^ emin"
  define k where "k = floorlog 2 (nat \<lfloor>s\<rfloor>) - 53"
  define m where "m = round_even (s / 2 ^ k)"
  note d = dbl_unfold [OF assms(1) s_def k_def m_def]
  have fin: "m * 2 ^ k < 2 ^ (emin + 1024)" using d assms(2) by (simp split: if_splits)
  have y: "y = sgn x * of_int (m * 2 ^ k) / 2 ^ emin" using d assms(2) by (simp split: if_splits)
  have s0: "0 \<le> s / 2 ^ k" using assms(1) by (simp add: s_def)
  then have "of_int 0 \<le> s / 2 ^ k" by simp
  then have m0: "0 \<le> m" unfolding m_def by (rule round_even_ge_int)
  have "y * 2 ^ emin = of_int m * 2 ^ k"
  proof (cases "x = 0")
    case True
    then have "s / 2 ^ k = of_int 0" by (simp add: s_def)
    then have "m = 0" unfolding m_def by (simp only: round_even_of_int)
    then show ?thesis using True y by simp
  next
    case False
    then have "sgn x = 1" using assms(1) by simp
    then show ?thesis using y by simp
  qed
  moreover have "\<bar>of_int m - s / 2 ^ k\<bar> \<le> 1 / 2"
    using round_even_upper [of "s / 2 ^ k"] round_even_lower [of "s / 2 ^ k"]
    unfolding m_def by linarith
  moreover have "k = 0 \<or> 2 ^ 52 * 2 ^ k \<le> s"
  proof (cases "k = 0")
    case False
    then have "53 < floorlog 2 (nat \<lfloor>s\<rfloor>)" unfolding k_def by simp
    then show ?thesis using k_def by (intro disjI2 floorlog_floor_bounds)
  qed simp
  ultimately show ?thesis using m0 fin unfolding s_def by blast
qed

text \<open>Below \<open>2^1023\<close> rounding is finite.\<close>

lemma dbl_finite:
  assumes "0 \<le> x" "x * 2 ^ emin < 2 ^ (emin + 1023)"
  shows "\<exists>y. dbl x = Some y"
proof -
  define s where "s = x * 2 ^ emin"
  define k where "k = floorlog 2 (nat \<lfloor>s\<rfloor>) - 53"
  define m where "m = round_even (s / 2 ^ k)"
  note d = dbl_unfold [OF assms(1) s_def k_def m_def]
  have s: "s < 2 ^ (emin + 1023)" using assms(2) by (simp add: s_def)
  have "m * 2 ^ k < 2 ^ (emin + 1024)"
  proof (cases "k = 0")
    case True
    have "s / 2 ^ k \<le> of_int (2 ^ (emin + 1023))" using s True by simp
    then have "m \<le> 2 ^ (emin + 1023)" unfolding m_def by (rule round_even_le_int)
    also have "\<dots> < (2::int) ^ (emin + 1024)" by simp
    finally show ?thesis using True by simp
  next
    case False
    then have "53 < floorlog 2 (nat \<lfloor>s\<rfloor>)" unfolding k_def by simp
    then have l: "2 ^ 52 * 2 ^ k \<le> s" and u: "s < 2 ^ 53 * 2 ^ k"
      using k_def by (rule floorlog_floor_bounds)+
    have "(2::rat) ^ (52 + k) < 2 ^ (emin + 1023)" using l s by (simp add: power_add)
    then have "52 + k < emin + 1023" by (simp only: power_strict_increasing_iff one_less_numeral_iff semiring_norm)
    then have e: "53 + k \<le> emin + 1023" by simp
    have "s / 2 ^ k \<le> of_int (2 ^ 53)" using u by (simp add: field_simps)
    then have "m \<le> 2 ^ 53" unfolding m_def by (rule round_even_le_int)
    then have "m * 2 ^ k \<le> 2 ^ 53 * 2 ^ k" by (intro mult_right_mono) simp_all
    also have "\<dots> = (2::int) ^ (53 + k)" by (simp only: power_add)
    also have "\<dots> \<le> 2 ^ (emin + 1023)" using e by (intro power_increasing) simp_all
    also have "\<dots> < (2::int) ^ (emin + 1024)" by simp
    finally show ?thesis .
  qed
  then show ?thesis unfolding d by simp
qed

lemma dbl_nonneg:
  assumes "0 \<le> x" "dbl x = Some y"
  shows "0 \<le> y"
proof -
  from dbl_scaled [OF assms] obtain k m
    where "y * 2 ^ emin = of_int m * 2 ^ k" "0 \<le> m" by blast
  then have "0 \<le> y * 2 ^ emin" by simp
  then show ?thesis using mult_le_cancel_right [of 0 "2 ^ emin" y] by simp
qed

lemma dbl_le_twice:
  assumes "0 \<le> x" "dbl x = Some y"
  shows "y \<le> 2 * x"
proof -
  from dbl_scaled [OF assms] obtain k m
    where y: "y * 2 ^ emin = of_int m * 2 ^ k"
      and r: "\<bar>of_int m - x * 2 ^ emin / 2 ^ k\<bar> \<le> 1 / 2" and m: "0 \<le> m" by blast
  define q where "q = x * 2 ^ emin / 2 ^ k"
  have q0: "0 \<le> q" using assms(1) by (simp add: q_def)
  have "(of_int m :: rat) \<le> 2 * q"
  proof (cases "m = 0")
    case True
    then show ?thesis using q0 by simp
  next
    case False
    then have "1 \<le> m" using m by simp
    then have "(1::rat) \<le> of_int m" by simp
    then show ?thesis using r unfolding q_def by linarith
  qed
  then have "(of_int m :: rat) * 2 ^ k \<le> 2 * q * 2 ^ k" by (intro mult_right_mono) simp_all
  also have "\<dots> = 2 * x * 2 ^ emin" by (simp add: q_def)
  finally have "y * 2 ^ emin \<le> 2 * x * 2 ^ emin" unfolding y .
  then show ?thesis by simp
qed

text \<open>From \<open>2^52\<close> least doubles on, which is \<open>1 / 2^1022\<close>, the relative error of rounding is
  at most \<open>1 / 2^53\<close>; above half a least double the result is above 0.\<close>

lemma dbl_rel_error:
  assumes "0 \<le> x" "2 ^ 52 \<le> x * 2 ^ emin" "dbl x = Some y"
  shows "\<bar>y - x\<bar> \<le> x / 2 ^ 53"
proof -
  from dbl_scaled [OF assms(1,3)] obtain k m
    where y: "y * 2 ^ emin = of_int m * 2 ^ k"
      and r: "\<bar>of_int m - x * 2 ^ emin / 2 ^ k\<bar> \<le> 1 / 2"
      and k: "k = 0 \<or> 2 ^ 52 * 2 ^ k \<le> x * 2 ^ emin" by blast
  define s where "s = x * 2 ^ emin"
  have l: "2 ^ 52 * 2 ^ k \<le> s" using k assms(2) unfolding s_def by auto
  have "of_int m * 2 ^ k - s = (of_int m - s / 2 ^ k) * 2 ^ k"
    by (simp add: left_diff_distrib)
  then have "\<bar>y * 2 ^ emin - s\<bar> = \<bar>of_int m - s / 2 ^ k\<bar> * 2 ^ k"
    unfolding y by (simp add: abs_mult)
  also have "\<dots> \<le> 1 / 2 * 2 ^ k" using r unfolding s_def by (intro mult_right_mono) simp_all
  also have "\<dots> \<le> s / 2 ^ 53" using l by simp
  finally have "\<bar>y * 2 ^ emin - x * 2 ^ emin\<bar> \<le> x * 2 ^ emin / 2 ^ 53" unfolding s_def .
  moreover have "\<bar>y * 2 ^ emin - x * 2 ^ emin\<bar> = \<bar>y - x\<bar> * 2 ^ emin"
    by (simp add: abs_mult left_diff_distrib [symmetric])
  ultimately have "\<bar>y - x\<bar> * 2 ^ emin \<le> x / 2 ^ 53 * 2 ^ emin" by simp
  then show ?thesis by (simp only: mult_le_cancel_right) simp
qed

lemma dbl_pos:
  assumes "0 \<le> x" "1 / 2 < x * 2 ^ emin" "dbl x = Some y"
  shows "0 < y"
proof -
  from dbl_scaled [OF assms(1,3)] obtain k m
    where y: "y * 2 ^ emin = of_int m * 2 ^ k"
      and r: "\<bar>of_int m - x * 2 ^ emin / 2 ^ k\<bar> \<le> 1 / 2"
      and k: "k = 0 \<or> 2 ^ 52 * 2 ^ k \<le> x * 2 ^ emin" by blast
  define q where "q = x * 2 ^ emin / 2 ^ k"
  have "1 / 2 < q"
  proof (cases "k = 0")
    case True
    then show ?thesis using assms(2) by (simp add: q_def)
  next
    case False
    then have "2 ^ 52 * 2 ^ k \<le> x * 2 ^ emin" using k by simp
    then have "2 ^ 52 \<le> q" unfolding q_def by (simp add: field_simps)
    then show ?thesis by simp
  qed
  then have "(0::rat) < of_int m" using r unfolding q_def by linarith
  then have "0 < y * 2 ^ emin" unfolding y by simp
  then show ?thesis by (simp add: zero_less_mult_iff)
qed

text \<open>A positive double is at least the least double and less than \<open>2^1024\<close>.\<close>

lemma dbl_representable:
  assumes "0 < y" "dbl y = Some y"
  shows "1 \<le> y * 2 ^ emin" "y * 2 ^ emin < 2 ^ (emin + 1024)"
proof -
  have "0 \<le> y" using assms(1) by simp
  from dbl_scaled [OF this assms(2)] obtain k m
    where y: "y * 2 ^ emin = of_int m * 2 ^ k"
      and m: "0 \<le> m" and fin: "m * 2 ^ k < 2 ^ (emin + 1024)" by blast
  have "0 < y * 2 ^ emin" using assms(1) by simp
  then have "m \<noteq> 0" unfolding y by auto
  then have "1 \<le> m * 2 ^ k" using m by (simp add: int_one_le_iff_zero_less)
  then have "(of_int 1 :: rat) \<le> of_int (m * 2 ^ k)" by (simp only: of_int_le_iff)
  then show "1 \<le> y * 2 ^ emin" unfolding y by simp
  have "(of_int (m * 2 ^ k) :: rat) < of_int (2 ^ (emin + 1024))"
    using fin by (simp only: of_int_less_iff)
  then show "y * 2 ^ emin < 2 ^ (emin + 1024)" unfolding y by simp
qed

lemma dbl_zero: "dbl 0 = Some 0"
proof -
  have "dbl 0 = (if (2::int) ^ (emin + 1024) \<le> round_even (0 / 2 ^ 0) * 2 ^ 0 then None
                 else Some (sgn 0 * of_int (round_even (0 / 2 ^ 0) * 2 ^ 0) / 2 ^ emin))"
    by (rule dbl_unfold) (simp_all add: floorlog_def)
  then show ?thesis by (simp add: round_even_def)
qed

text \<open>Evaluation. A number that \<open>2^j\<close> scales into the range of the 53-bit mantissas is
  rounded there; so \<open>dbl x\<close> is known from the exponent \<open>j\<close> and an integer \<open>m\<close> within less
  than one half of \<open>x * 2^j\<close>.\<close>

lemma dbl_up:
  assumes "2 ^ 52 \<le> x * 2 ^ j" "x * 2 ^ j < 2 ^ 53" "j \<le> emin"
  shows "dbl x = Some (of_int (round_even (x * 2 ^ j)) / 2 ^ j)"
proof -
  define s where "s = x * 2 ^ emin"
  define k where "k = floorlog 2 (nat \<lfloor>s\<rfloor>) - 53"
  define m where "m = round_even (s / 2 ^ k)"
  have "0 < x * 2 ^ j" using assms(1) by (rule less_le_trans [rotated]) simp
  then have x: "0 < x" by (simp add: zero_less_mult_iff)
  then have x0: "0 \<le> x" by simp
  note d = dbl_unfold [OF x0 s_def k_def m_def]
  define c where "c = emin - j"
  have e: "emin = j + c" using assms(3) by (simp add: c_def)
  have sx: "s = x * 2 ^ j * 2 ^ c" by (simp add: s_def e power_add)
  have "2 ^ 52 * 2 ^ c \<le> s" unfolding sx using assms(1) by (intro mult_right_mono) simp_all
  then have l: "2 ^ (52 + c) \<le> s" by (simp only: power_add)
  have "s < 2 ^ 53 * 2 ^ c" unfolding sx using assms(2) by (intro mult_strict_right_mono) simp_all
  then have u: "s < 2 ^ Suc (52 + c)" by (simp add: power_add)
  have "floorlog 2 (nat \<lfloor>s\<rfloor>) = Suc (52 + c)" using l u by (rule floorlog_floor)
  then have k: "k = c" unfolding k_def by simp
  have q: "s / 2 ^ k = x * 2 ^ j" unfolding k sx by simp
  have m: "m = round_even (x * 2 ^ j)" unfolding m_def q ..
  have "x * 2 ^ j \<le> of_int (2 ^ 53)" using assms(2) by simp
  then have "m \<le> 2 ^ 53" unfolding m by (rule round_even_le_int)
  then have "m * 2 ^ c \<le> 2 ^ 53 * 2 ^ c" by (intro mult_right_mono) simp_all
  also have "\<dots> = (2::int) ^ (53 + c)" by (simp only: power_add)
  also have "\<dots> < 2 ^ (emin + 1024)" unfolding e by (intro power_strict_increasing) simp_all
  finally have fin: "m * 2 ^ k < 2 ^ (emin + 1024)" unfolding k .
  have "dbl x = Some (of_int (m * 2 ^ k) / 2 ^ emin)" unfolding d using fin x by simp
  also have "of_int (m * 2 ^ k) / 2 ^ emin = (of_int m :: rat) / 2 ^ j"
    unfolding k e by (simp add: power_add)
  finally show ?thesis unfolding m .
qed

lemma round_even_near:
  assumes "\<bar>q - of_int m\<bar> < 1 / 2"
  shows "round_even q = m"
proof -
  have "(of_int (round_even q) :: rat) < of_int m + 1"
    using round_even_upper [of q] assms by linarith
  then have "(of_int (round_even q) :: rat) < of_int (m + 1)" by simp
  then have "round_even q < m + 1" by (simp only: of_int_less_iff)
  moreover have "(of_int m :: rat) - 1 < of_int (round_even q)"
    using round_even_lower [of q] assms by linarith
  then have "(of_int (m - 1) :: rat) < of_int (round_even q)" by simp
  then have "m - 1 < round_even q" by (simp only: of_int_less_iff)
  ultimately show ?thesis by simp
qed

lemma dbl_eval:
  assumes "2 ^ 52 \<le> x * 2 ^ j" "x * 2 ^ j < 2 ^ 53" "j \<le> emin"
    "\<bar>x * 2 ^ j - of_int m\<bar> < 1 / 2" "y = of_int m / 2 ^ j"
  shows "dbl x = Some y"
  unfolding dbl_up [OF assms(1-3)] round_even_near [OF assms(4)] assms(5) ..

text \<open>Less than half a least double is rounded to 0; an integer below \<open>2^53\<close> is a double.\<close>

lemma dbl_tiny:
  assumes "0 \<le> x" "x * 2 ^ emin < 1 / 2"
  shows "dbl x = Some 0"
proof -
  define s where "s = x * 2 ^ emin"
  have s: "0 \<le> s" "s < 1" using assms by (simp_all add: s_def)
  then have f: "\<lfloor>s\<rfloor> = 0" by linarith
  have k: "0 = floorlog 2 (nat \<lfloor>s\<rfloor>) - 53" by (simp add: f floorlog_def)
  have "\<bar>s / 2 ^ 0 - of_int 0\<bar> < 1 / 2" using s assms(2) by (simp add: s_def)
  then have m: "0 = round_even (s / 2 ^ 0)" by (simp only: round_even_near)
  show ?thesis unfolding dbl_unfold [OF assms(1) s_def k m] by simp
qed

lemma dbl_int:
  assumes "0 \<le> n" "n < 2 ^ 53"
  shows "dbl (of_int n) = Some (of_int n)"
proof (cases "n = 0")
  case True
  then show ?thesis by (simp add: dbl_zero)
next
  case False
  define b where "b = floorlog 2 (nat n)"
  have n: "0 < nat n" using False assms(1) by simp
  have "(2::nat) ^ (b - 1) \<le> nat n \<and> nat n < 2 ^ b"
    unfolding b_def using n by (intro floorlog_bounds) simp_all
  then have l: "(2::nat) ^ (b - 1) \<le> nat n" and u: "nat n < (2::nat) ^ b" by simp_all
  have b0: "0 < b" using n floorlog_eq_zero_iff [of 2 "nat n"] by (simp add: b_def)
  have "int ((2::nat) ^ (b - 1)) \<le> int (nat n)" using l by (simp only: of_nat_le_iff)
  then have li: "(2::int) ^ (b - 1) \<le> n" using assms(1) by simp
  have "int (nat n) < int ((2::nat) ^ b)" using u by (simp only: of_nat_less_iff)
  then have ui: "n < (2::int) ^ b" using assms(1) by simp
  have "(2::int) ^ (b - 1) < 2 ^ 53" using li assms(2) by (rule le_less_trans)
  then have "b - 1 < 53" by (simp only: power_strict_increasing_iff one_less_numeral_iff semiring_norm)
  then have b53: "b \<le> 53" by simp
  define j where "j = 53 - b"
  have e1: "52 = (b - 1) + j" and e2: "53 = b + j" using b0 b53 by (simp_all add: j_def)
  have "(2::int) ^ (b - 1) * 2 ^ j \<le> n * 2 ^ j" using li by (intro mult_right_mono) simp_all
  then have "(2::int) ^ 52 \<le> n * 2 ^ j" by (simp only: e1 power_add)
  then have "(of_int (2 ^ 52) :: rat) \<le> of_int (n * 2 ^ j)" by (simp only: of_int_le_iff)
  then have 1: "(2::rat) ^ 52 \<le> of_int n * 2 ^ j" by simp
  have "n * 2 ^ j < (2::int) ^ b * 2 ^ j" using ui by (intro mult_strict_right_mono) simp_all
  then have "n * 2 ^ j < (2::int) ^ 53" by (simp only: e2 power_add)
  then have "(of_int (n * 2 ^ j) :: rat) < of_int (2 ^ 53)" by (simp only: of_int_less_iff)
  then have 2: "of_int n * 2 ^ j < (2::rat) ^ 53" by simp
  have 3: "j \<le> emin" by (simp add: j_def emin_def)
  have "of_int n * (2::rat) ^ j = of_int (n * 2 ^ j)" by simp
  then have r: "round_even (of_int n * 2 ^ j) = n * 2 ^ j" by (simp only: round_even_of_int)
  show ?thesis unfolding dbl_up [OF 1 2 3] r by simp
qed

lemma dbl_numeral:
  "numeral n < (2::int) ^ 53 \<Longrightarrow> dbl (numeral n) = Some (numeral n)"
  using dbl_int [of "numeral n"] by simp

lemma dbl_one: "dbl 1 = Some 1"
  using dbl_int [of 1] by simp

subsection \<open>Statements and loops\<close>

lemmas collaborators =
  ctx_update_def ctx_update_rendering_def ctx_update_current_def pass_setProps_def
  pass_updateBackground_def loop_stop_def loop_start_def loop_resetTime_def loop_tick_def
  animation_play_def animation_stop_def canvas3d_setProps_def getImageData_def
  pass_getImageData_def createH264MP4Encoder_def on_encoder_def addFrameRgba_def readFile_def

lemmas statements =
  encodeMp4Animation_def mp4_setup_def mp4_try_def mp4_finally_def mp4_sample_def
  encodeWebmAnimation_def webm_try_def encodeWebmAnimation2_def webm2_try_def webm_sample_def
  ffmpeg_save_def validateViewport_def normalizedViewport_def even_down_def configure_def
  new_H264MP4Encoder_def truthy_def fps_of_def merge_def call_def ok_def Let_def

lemmas inputs = idle_def env_of_def scenarioA_def styled_def

lemma run_inv:
  assumes "\<And>f s. f \<in> set fs \<Longrightarrow> I s \<Longrightarrow> I (snd (f s))" "I s"
  shows "I (snd (run fs s))"
  using assms
proof (induction fs arbitrary: s)
  case Nil
  then show ?case by simp
next
  case (Cons f fs)
  have h: "I (snd (f s))" using Cons.prems by simp
  show ?case
  proof (cases "f s")
    case (Pair r s1)
    then show ?thesis
      using h Cons.IH [of s1] Cons.prems(1) by (cases r) simp_all
  qed
qed

lemma canvas_props_const:
  "c\<lparr>backgroundColor := b, transparentBackground := t\<rparr> = \<lparr>backgroundColor = b, transparentBackground = t\<rparr>"
  by (cases c) simp

lemma canvas_restore:
  "canvas3d t = map_option f (canvas3d s) \<Longrightarrow>
   canvas3d (canvas3d_setProps (map_option backgroundColor (canvas3d s))
              (map_option transparentBackground (canvas3d s)) t) = canvas3d s"
  by (cases "canvas3d s") (simp_all add: canvas3d_setProps_def)

lemma smod_2_odd: "(v smod 2 \<noteq> 0) = odd (v::int)"
  unfolding smod_int_alt_def sgn_if by presburger

lemma even_down_cases: "even (even_down v)" "odd v \<Longrightarrow> even_down v = v - 1" "even v \<Longrightarrow> even_down v = v"
  by (simp_all add: even_down_def smod_2_odd)

lemma configure_flags:
  "enc_finalized (configure p e) = enc_finalized e" "deleted (configure p e) = deleted e"
  "rgba_frames (configure p e) = rgba_frames e"
  "frameRate (configure p e) = (if truthy (fps p) then the (fps p) else frameRate e)"
  "enc_quantizationParameter (configure p e) =
     (if truthy (quantizationParameter p) then the (quantizationParameter p)
      else enc_quantizationParameter e)"
  "enc_width (configure p e) = even_down (vp_width (viewport p))"
  "enc_height (configure p e) = even_down (vp_height (viewport p))"
  by (simp_all add: configure_def Let_def normalizedViewport_def)

lemma mp4_frameRate: "frameRate (configure p (new_H264MP4Encoder E)) = fps_of p"
  by (simp add: configure_flags fps_of_def new_H264MP4Encoder_def)

subsection \<open>The sampling loops\<close>

lemma sampling_keeps_refl: "sampling_keeps s s"
  by (simp add: sampling_keeps_def)

lemma sampling_keeps_trans: "sampling_keeps s t \<Longrightarrow> sampling_keeps t u \<Longrightarrow> sampling_keeps s u"
  by (simp add: sampling_keeps_def)

lemma mp4_sample_keeps: "sampling_keeps s (snd (mp4_sample E p N dt i s))"
  by (cases "encoder s")
     (simp_all add: mp4_sample_def call_def ok_def collaborators sampling_keeps_def option.map_comp comp_def)

lemma mp4_loop_keeps: "sampling_keeps s (snd (mp4_loop E p N dt i s))"
proof (induction E p N dt i s rule: mp4_loop.induct)
  case (1 E p N dt i s)
  show ?case
  proof (cases "i \<le> N")
    case False
    then show ?thesis by (simp add: sampling_keeps_refl)
  next
    case True
    obtain r s1 where b: "mp4_sample E p N dt i s = (r, s1)" by (cases "mp4_sample E p N dt i s")
    have k1: "sampling_keeps s s1" using mp4_sample_keeps [of s E p N dt i] b by simp
    show ?thesis
    proof (cases r)
      case (Some e)
      then show ?thesis using True b k1 by simp
    next
      case None
      have "sampling_keeps s1 (snd (mp4_loop E p N dt (i + 1) s1))"
        using "1.IH" [OF True b [symmetric, unfolded None]] by simp
      then show ?thesis using True b None k1 by (simp add: sampling_keeps_trans [OF k1])
    qed
  qed
qed

lemma mp4_loop_keepsD: "mp4_loop E p N dt i s = (r, s') \<Longrightarrow> sampling_keeps s s'"
  using mp4_loop_keeps [of s E p N dt i] by simp

lemma keeps_encoderD:
  assumes "sampling_keeps s s'" "encoder s = Some e"
  shows "\<exists>e'. encoder s' = Some e' \<and> frameRate e' = frameRate e
            \<and> enc_quantizationParameter e' = enc_quantizationParameter e
            \<and> enc_width e' = enc_width e \<and> enc_height e' = enc_height e
            \<and> initialized e' = initialized e
            \<and> enc_finalized e' = enc_finalized e \<and> deleted e' = deleted e"
proof -
  from assms obtain e' where e': "encoder s' = Some e'"
    and eq: "e'\<lparr>rgba_frames := []\<rparr> = e\<lparr>rgba_frames := []\<rparr>"
    by (cases "encoder s'") (auto simp: sampling_keeps_def)
  have "frameRate (e'\<lparr>rgba_frames := []\<rparr>) = frameRate (e\<lparr>rgba_frames := []\<rparr>)"
       "enc_quantizationParameter (e'\<lparr>rgba_frames := []\<rparr>) = enc_quantizationParameter (e\<lparr>rgba_frames := []\<rparr>)"
       "enc_width (e'\<lparr>rgba_frames := []\<rparr>) = enc_width (e\<lparr>rgba_frames := []\<rparr>)"
       "enc_height (e'\<lparr>rgba_frames := []\<rparr>) = enc_height (e\<lparr>rgba_frames := []\<rparr>)"
       "initialized (e'\<lparr>rgba_frames := []\<rparr>) = initialized (e\<lparr>rgba_frames := []\<rparr>)"
       "enc_finalized (e'\<lparr>rgba_frames := []\<rparr>) = enc_finalized (e\<lparr>rgba_frames := []\<rparr>)"
       "deleted (e'\<lparr>rgba_frames := []\<rparr>) = deleted (e\<lparr>rgba_frames := []\<rparr>)"
    by (simp_all only: eq)
  then show ?thesis using e' by simp
qed

text \<open>When no call throws, the loop runs all its rounds: one tick, one frame and one
  \<open>addFrameRgba\<close> for each index from \<open>i\<close> to \<open>N\<close>, in this order.\<close>

lemma mp4_loop_quiet:
  "(\<And>c. \<not> throws E c) \<Longrightarrow> encoder s = Some e \<Longrightarrow>
    \<exists>s'. mp4_loop E p N dt i s = (None, s')
       \<and> encoder s' = Some (e\<lparr>rgba_frames := rgba_frames e @ map (sample_frame p dt (canvas3d s)) [i..N]\<rparr>)
       \<and> ticks s' = ticks s @ map (\<lambda>k. (js_mul (Some (of_int k)) dt, k, N)) [i..N]
       \<and> rendered s' = rendered s @ map (sample_frame p dt (canvas3d s)) [i..N]"
proof (induction E p N dt i s arbitrary: e rule: mp4_loop.induct)
  case (1 E p N dt i s)
  note q = "1.prems"(1)
  show ?case
  proof (cases "i \<le> N")
    case False
    then show ?thesis using "1.prems" by simp
  next
    case True
    obtain s1 where b: "mp4_sample E p N dt i s = (None, s1)"
      and e1: "encoder s1 = Some (e\<lparr>rgba_frames := rgba_frames e @ [sample_frame p dt (canvas3d s) i]\<rparr>)"
      and t1: "ticks s1 = ticks s @ [(js_mul (Some (of_int i)) dt, i, N)]"
      and r1: "rendered s1 = rendered s @ [sample_frame p dt (canvas3d s) i]"
      and c1: "canvas3d s1 = canvas3d s"
      using "1.prems"(2) q by (simp add: mp4_sample_def call_def ok_def collaborators sample_frame_def)
    from "1.IH" [OF True b [symmetric] refl q e1]
    obtain s' where l: "mp4_loop E p N dt (i + 1) s1 = (None, s')"
      and e': "encoder s' = Some (e\<lparr>rgba_frames := rgba_frames e @ [sample_frame p dt (canvas3d s) i]\<rparr>
                 \<lparr>rgba_frames := rgba_frames (e\<lparr>rgba_frames := rgba_frames e @ [sample_frame p dt (canvas3d s) i]\<rparr>) @ map (sample_frame p dt (canvas3d s1)) [i + 1..N]\<rparr>)"
      and t': "ticks s' = ticks s1 @ map (\<lambda>k. (js_mul (Some (of_int k)) dt, k, N)) [i + 1..N]"
      and r': "rendered s' = rendered s1 @ map (sample_frame p dt (canvas3d s1)) [i + 1..N]"
      by blast
    have u: "[i..N] = i # [i + 1..N]" using True by (simp add: upto_rec1)
    show ?thesis
      using True b l e' t' r' t1 r1 c1 u by simp
  qed
qed

lemma webm_loop_quiet:
  "(\<And>c. \<not> throws E c) \<Longrightarrow>
    \<exists>s'. webm_loop E p N dt i s = (None, s')
       \<and> images s' = images s @ map (sample_frame p dt (canvas3d s)) [i..N]
       \<and> ticks s' = ticks s @ map (\<lambda>k. (js_mul (Some (of_int k)) dt, k, N)) [i..N]
       \<and> ffmpeg_commands s' = ffmpeg_commands s \<and> console s' = console s"
proof (induction E p N dt i s rule: webm_loop.induct)
  case (1 E p N dt i s)
  note q = "1.prems"(1)
  show ?case
  proof (cases "i \<le> N")
    case False
    then show ?thesis by simp
  next
    case True
    obtain s1 where b: "webm_sample E p N dt i s = (None, s1)"
      and e1: "images s1 = images s @ [sample_frame p dt (canvas3d s) i]"
      and t1: "ticks s1 = ticks s @ [(js_mul (Some (of_int i)) dt, i, N)]"
      and f1: "ffmpeg_commands s1 = ffmpeg_commands s" and o1: "console s1 = console s"
      and c1: "canvas3d s1 = canvas3d s"
      using q by (simp add: webm_sample_def call_def ok_def collaborators sample_frame_def)
    from "1.IH" [OF True b [symmetric] refl q]
    obtain s' where l: "webm_loop E p N dt (i + 1) s1 = (None, s')"
      and e': "images s' = images s1 @ map (sample_frame p dt (canvas3d s1)) [i + 1..N]"
      and t': "ticks s' = ticks s1 @ map (\<lambda>k. (js_mul (Some (of_int k)) dt, k, N)) [i + 1..N]"
      and f': "ffmpeg_commands s' = ffmpeg_commands s1" and o': "console s' = console s1"
      by blast
    have u: "[i..N] = i # [i + 1..N]" using True by (simp add: upto_rec1)
    show ?thesis
      using True b l e' t' e1 t1 c1 f1 f' o1 o' u by simp
  qed
qed

lemma webm_sample_ctx_max: "ctx_max (snd (webm_sample E p N dt i s)) = ctx_max s"
  by (cases "image_data (loop_tick (js_mul (Some (of_int i)) dt) i N s)")
     (simp_all add: webm_sample_def call_def ok_def collaborators)

lemma webm_loop_ctx_max: "ctx_max (snd (webm_loop E p N dt i s)) = ctx_max s"
proof (induction E p N dt i s rule: webm_loop.induct)
  case (1 E p N dt i s)
  show ?case
  proof (cases "i \<le> N")
    case False
    then show ?thesis by simp
  next
    case True
    obtain r s1 where b: "webm_sample E p N dt i s = (r, s1)" by (cases "webm_sample E p N dt i s")
    have k1: "ctx_max s1 = ctx_max s" using webm_sample_ctx_max [of E p N dt i s] b by simp
    show ?thesis
    proof (cases r)
      case (Some e)
      then show ?thesis using True b k1 by simp
    next
      case None
      have "ctx_max (snd (webm_loop E p N dt (i + 1) s1)) = ctx_max s1"
        using "1.IH" [OF True b [symmetric, unfolded None]] by simp
      then show ?thesis using True b None k1 by simp
    qed
  qed
qed

subsection \<open>encodeMp4Animation, block by block\<close>

lemma mp4_setup_ok:
  assumes "\<not> throws E CreateEncoder" "\<not> throws E Initialize"
  shows "mp4_setup E p s =
    (None, on_encoder (\<lambda>e. e\<lparr>initialized := True\<rparr>)
             (on_encoder (configure p) (createH264MP4Encoder E s)))"
  using assms by (simp add: mp4_setup_def call_def ok_def)

lemma mp4_setup_no_encoder:
  assumes "throws E CreateEncoder"
  shows "mp4_setup E p s = (Some (Threw CreateEncoder), s)"
  using assms by (simp add: mp4_setup_def call_def ok_def)

lemma mp4_setup_no_initialize:
  assumes "\<not> throws E CreateEncoder" "throws E Initialize"
  shows "mp4_setup E p s =
    (Some (Threw Initialize), on_encoder (configure p) (createH264MP4Encoder E s))"
  using assms by (simp add: mp4_setup_def call_def ok_def)

lemma try_entry_state:
  assumes "\<not> throws E CreateEncoder" "\<not> throws E Initialize"
  shows "encoder (try_entry E p s) = Some ((configure p (new_H264MP4Encoder E))\<lparr>initialized := True\<rparr>)"
    "stoppedAnimation (try_entry E p s)" "\<not> finalized (try_entry E p s)"
    "canvas3d (try_entry E p s) = canvas3d s"
    "isAnimating (try_entry E p s) = isAnimating s" "isPlaying (try_entry E p s) = isPlaying s"
    "console (try_entry E p s) = console s"
    "pass_postprocessing (try_entry E p s) = merge (pass_postprocessing s) (postprocessing p)"
    "ticks (try_entry E p s) = ticks s"
  by (simp_all add: try_entry_def mp4_setup_ok [OF assms(1,2)] collaborators)

lemma in_try_loop: "in_try p d s t \<Longrightarrow> in_try p d s (snd (mp4_loop E p N dt i t))"
proof -
  assume a: "in_try p d s t"
  let ?u = "snd (mp4_loop E p N dt i t)"
  have k: "sampling_keeps t ?u" by (rule mp4_loop_keeps)
  from a obtain e e' where e: "encoder s = Some e" and e': "encoder t = Some e'"
    by (auto simp: in_try_def split: option.splits)
  from keeps_encoderD [OF k e'] obtain e'' where "encoder ?u = Some e''"
    "frameRate e'' = frameRate e'" "enc_quantizationParameter e'' = enc_quantizationParameter e'"
    "enc_width e'' = enc_width e'" "enc_height e'' = enc_height e'" "initialized e'' = initialized e'"
    "enc_finalized e'' = enc_finalized e'" "deleted e'' = deleted e'" by blast
  then show ?thesis using a k e e' by (simp add: in_try_def sampling_keeps_def)
qed

lemma mp4_try_inv:
  assumes "encoder s = Some e" "\<not> enc_finalized e" "\<not> deleted e" "stoppedAnimation s" "\<not> finalized s"
  shows "in_try p d s (snd (mp4_try E p d s))"
proof -
  let ?N = "sampleCount d (frameRate e)"
  let ?s1 = "ctx_update_rendering (?N + 1)
               ((case customBackground p of None \<Rightarrow> id
                 | Some c \<Rightarrow> canvas3d_setProps (Some c) (Some False)) (loop_resetTime 0 (loop_stop s)))"
  let ?rest = "[call E UpdateBackground pass_updateBackground,
              call E Play (\<lambda>s. (animation_play s)\<lparr>stoppedAnimation := False\<rparr>),
              mp4_loop E p ?N (stepMs d ?N) 0,
              ok (ctx_update ''Applying finishing touches...''),
              call E Stop (\<lambda>s. (animation_stop s)\<lparr>stoppedAnimation := True\<rparr>),
              call E Finalize
                (\<lambda>s. (on_encoder (\<lambda>e. e\<lparr>enc_finalized := True\<rparr>) s)\<lparr>finalized := True\<rparr>),
              call E ReadFile readFile]"
  have sp: "mp4_try E p d s = run ?rest ?s1"
    by (simp add: mp4_try_def Let_def ok_def assms)
  have i1: "in_try p d s ?s1"
    using assms
    by (cases "canvas3d s"; cases "customBackground p")
       (simp_all add: in_try_def collaborators canvas_props_const)
  have "in_try p d s (snd (run ?rest ?s1))"
  proof (rule run_inv [where I = "in_try p d s", OF _ i1])
    fix f t assume f: "f \<in> set ?rest" and t: "in_try p d s t"
    have a: "in_try p d s (snd (call E UpdateBackground pass_updateBackground t))"
      using t by (auto simp: call_def in_try_def collaborators split: option.splits)
    have b: "in_try p d s (snd (call E Play (\<lambda>s. (animation_play s)\<lparr>stoppedAnimation := False\<rparr>) t))"
      using t by (auto simp: call_def in_try_def collaborators split: option.splits)
    have c: "in_try p d s (snd (ok (ctx_update ''Applying finishing touches...'') t))"
      using t by (auto simp: ok_def in_try_def collaborators split: option.splits)
    have d: "in_try p d s (snd (call E Stop (\<lambda>s. (animation_stop s)\<lparr>stoppedAnimation := True\<rparr>) t))"
      using t by (auto simp: call_def in_try_def collaborators split: option.splits)
    have e: "in_try p d s (snd (call E Finalize
                (\<lambda>s. (on_encoder (\<lambda>e. e\<lparr>enc_finalized := True\<rparr>) s)\<lparr>finalized := True\<rparr>) t))"
      using t by (auto simp: call_def in_try_def collaborators split: option.splits)
    have g: "in_try p d s (snd (call E ReadFile readFile t))"
      using t by (auto simp: call_def in_try_def collaborators split: option.splits)
    from f consider "f = call E UpdateBackground pass_updateBackground"
      | "f = call E Play (\<lambda>s. (animation_play s)\<lparr>stoppedAnimation := False\<rparr>)"
      | "f = mp4_loop E p ?N (stepMs d ?N) 0"
      | "f = ok (ctx_update ''Applying finishing touches...'')"
      | "f = call E Stop (\<lambda>s. (animation_stop s)\<lparr>stoppedAnimation := True\<rparr>)"
      | "f = call E Finalize
                (\<lambda>s. (on_encoder (\<lambda>e. e\<lparr>enc_finalized := True\<rparr>) s)\<lparr>finalized := True\<rparr>)"
      | "f = call E ReadFile readFile"
      by (simp only: set_simps insert_iff empty_iff) blast
    then show "in_try p d s (snd (f t))"
      using a b c d e g in_try_loop [OF t] by cases simp_all
  qed
  then show ?thesis by (simp only: sp)
qed

lemma mp4_in_try:
  assumes "\<not> throws E CreateEncoder" "\<not> throws E Initialize"
  shows "in_try p d (try_entry E p s) (snd (mp4_try E p d (try_entry E p s)))"
  by (rule mp4_try_inv [OF try_entry_state(1) [OF assms]])
     (simp_all add: configure_flags new_H264MP4Encoder_def try_entry_state(2,3) [OF assms])

lemma mp4_finally_quiet:
  assumes "\<not> throws E Delete" "\<not> throws E StopInFinally" "\<not> throws E LoopStart"
  shows "\<exists>s'. mp4_finally E p cp wa s = (None, s')
     \<and> canvas3d s' = (case customBackground p of None \<Rightarrow> canvas3d s
          | Some c \<Rightarrow> canvas3d (canvas3d_setProps (map_option backgroundColor cp)
                         (map_option transparentBackground cp) s))
     \<and> isPlaying s' = (stoppedAnimation s \<and> isPlaying s)
     \<and> isAnimating s' = (wa \<or> isAnimating s)
     \<and> pass_postprocessing s' = pass_postprocessing s
     \<and> console s' = console s \<and> ctx_max s' = ctx_max s \<and> ticks s' = ticks s
     \<and> file_read s' = file_read s
     \<and> encoder s' = (if finalized s then map_option (\<lambda>e. e\<lparr>deleted := True\<rparr>) (encoder s)
                      else encoder s)"
  using assms
  by (cases "customBackground p")
     (simp_all add: mp4_finally_def call_def ok_def collaborators)

lemma mp4_finally_any:
  "pass_postprocessing (snd (mp4_finally E p cp wa s)) = pass_postprocessing s
   \<and> console (snd (mp4_finally E p cp wa s)) = console s
   \<and> ctx_max (snd (mp4_finally E p cp wa s)) = ctx_max s
   \<and> encoder (snd (mp4_finally E p cp wa s)) =
       (if finalized s \<and> \<not> throws E Delete
        then map_option (\<lambda>e. e\<lparr>deleted := True\<rparr>) (encoder s) else encoder s)"
  by (cases "customBackground p")
     (simp_all add: mp4_finally_def call_def ok_def collaborators)

text \<open>The function from the \<open>try\<close> block on, for a job that reaches it.\<close>

lemma encodeMp4Animation_try:
  assumes "validateViewport p = None" "getDuration E (animation p) = Some d"
    "\<not> throws E CreateEncoder" "\<not> throws E Initialize"
    "mp4_try E p d (try_entry E p s) = (r, s3)"
    "mp4_finally E p (canvas3d s) (isAnimating s) s3 = (r', s4)"
  shows "encodeMp4Animation E p s =
    (case r' of Some e' \<Rightarrow> Inl e' | None \<Rightarrow> (case r of Some e \<Rightarrow> Inl e | None \<Rightarrow> Inr (file_read s4)), s4)"
proof -
  let ?s2 = "on_encoder (\<lambda>e. e\<lparr>initialized := True\<rparr>)
               (on_encoder (configure p) (createH264MP4Encoder E (ctx_update ''Initializing...'' s)))"
  have s2: "mp4_setup E p (ctx_update ''Initializing...'' s) = (None, ?s2)"
    by (rule mp4_setup_ok [OF assms(3,4)])
  have c: "canvas3d ?s2 = canvas3d s" "isAnimating ?s2 = isAnimating s"
    by (simp_all add: collaborators)
  have e: "try_entry E p s
      = pass_setProps (postprocessing p) (?s2\<lparr>stoppedAnimation := True, finalized := False\<rparr>)"
    by (simp add: try_entry_def s2)
  show ?thesis
    using assms(5,6)
    by (simp add: encodeMp4Animation_def Let_def assms(1,2) s2 c e [symmetric]
          split: option.splits)
qed

lemma mp4_early_exit:
  assumes "validateViewport p \<noteq> None \<or> getDuration E (animation p) = None
           \<or> throws E CreateEncoder \<or> throws E Initialize"
  shows "canvas3d (snd (encodeMp4Animation E p s)) = canvas3d s
       \<and> isAnimating (snd (encodeMp4Animation E p s)) = isAnimating s
       \<and> isPlaying (snd (encodeMp4Animation E p s)) = isPlaying s
       \<and> console (snd (encodeMp4Animation E p s)) = console s
       \<and> ctx_max (snd (encodeMp4Animation E p s)) = ctx_max s
       \<and> pass_postprocessing (snd (encodeMp4Animation E p s)) = pass_postprocessing s"
proof (cases "validateViewport p")
  case (Some e)
  then show ?thesis by (simp add: encodeMp4Animation_def Let_def ctx_update_def)
next
  case None
  note v = None
  show ?thesis
  proof (cases "getDuration E (animation p)")
    case None
    then show ?thesis using v by (simp add: encodeMp4Animation_def Let_def ctx_update_def)
  next
    case (Some d)
    show ?thesis
    proof (cases "throws E CreateEncoder")
      case True
      then show ?thesis using v Some
        by (simp add: encodeMp4Animation_def Let_def mp4_setup_no_encoder ctx_update_def)
    next
      case False
      then have "throws E Initialize" using assms v Some by simp
      then show ?thesis using v Some False
        by (simp add: encodeMp4Animation_def Let_def mp4_setup_no_initialize collaborators)
    qed
  qed
qed

lemma mp4_restored:
  assumes "\<not> throws E Delete" "\<not> throws E StopInFinally" "\<not> throws E LoopStart"
    "validateViewport p = None" "getDuration E (animation p) = Some d"
    "\<not> throws E CreateEncoder" "\<not> throws E Initialize"
  shows "canvas3d (snd (encodeMp4Animation E p s)) = canvas3d s
       \<and> isAnimating (snd (encodeMp4Animation E p s)) = isAnimating s
       \<and> \<not> (isPlaying (snd (encodeMp4Animation E p s)) \<and> \<not> isPlaying s)
       \<and> console (snd (encodeMp4Animation E p s)) = console s
       \<and> pass_postprocessing (snd (encodeMp4Animation E p s))
           = merge (pass_postprocessing s) (postprocessing p)
       \<and> fst (encodeMp4Animation E p s) =
           (case fst (mp4_try E p d (try_entry E p s)) of
              Some e \<Rightarrow> Inl e
            | None \<Rightarrow> Inr (file_read (snd (encodeMp4Animation E p s))))"
proof -
  obtain r s3 where t: "mp4_try E p d (try_entry E p s) = (r, s3)"
    by (cases "mp4_try E p d (try_entry E p s)")
  have i: "in_try p d (try_entry E p s) s3"
    using mp4_in_try [OF assms(6,7), of p d s] t by simp
  from mp4_finally_quiet [OF assms(1,2,3), of p "canvas3d s" "isAnimating s" s3]
  obtain s4 where f: "mp4_finally E p (canvas3d s) (isAnimating s) s3 = (None, s4)"
    and c4: "canvas3d s4 = (case customBackground p of None \<Rightarrow> canvas3d s3
          | Some c \<Rightarrow> canvas3d (canvas3d_setProps (map_option backgroundColor (canvas3d s))
                         (map_option transparentBackground (canvas3d s)) s3))"
    and p4: "isPlaying s4 = (stoppedAnimation s3 \<and> isPlaying s3)"
    and a4: "isAnimating s4 = (isAnimating s \<or> isAnimating s3)"
    and pp4: "pass_postprocessing s4 = pass_postprocessing s3"
    and co4: "console s4 = console s3"
    by blast
  have res: "encodeMp4Animation E p s =
      (case r of Some e \<Rightarrow> Inl e | None \<Rightarrow> Inr (file_read s4), s4)"
    using encodeMp4Animation_try [OF assms(4,5,6,7) t f] by simp
  have c: "canvas3d s4 = canvas3d s"
  proof (cases "customBackground p")
    case None
    then show ?thesis using c4 i by (simp add: in_try_def try_entry_state [OF assms(6,7)])
  next
    case (Some c)
    have "canvas3d s3 = map_option (\<lambda>_. \<lparr>backgroundColor = c, transparentBackground = False\<rparr>) (canvas3d s)"
      using i Some by (simp add: in_try_def try_entry_state [OF assms(6,7)])
    then show ?thesis using c4 Some by (simp add: canvas_restore)
  qed
  have a: "isAnimating s4 = isAnimating s" using a4 i by (simp add: in_try_def)
  have pl: "\<not> (isPlaying s4 \<and> \<not> isPlaying s)"
    using p4 i by (auto simp: in_try_def try_entry_state [OF assms(6,7)])
  have co: "console s4 = console s" using co4 i by (simp add: in_try_def try_entry_state [OF assms(6,7)])
  have pp: "pass_postprocessing s4 = merge (pass_postprocessing s) (postprocessing p)"
    using pp4 i by (simp add: in_try_def try_entry_state [OF assms(6,7)])
  show ?thesis using c a pl co pp res t by (cases r) simp_all
qed

lemma mp4_ctx_max:
  assumes "validateViewport p = None" "getDuration E (animation p) = Some d"
    "\<not> throws E CreateEncoder" "\<not> throws E Initialize"
  shows "ctx_max (snd (encodeMp4Animation E p s)) = sampleCount d (fps_of p) + 1"
proof -
  obtain r s3 where t: "mp4_try E p d (try_entry E p s) = (r, s3)"
    by (cases "mp4_try E p d (try_entry E p s)")
  have i: "in_try p d (try_entry E p s) s3"
    using mp4_in_try [OF assms(3,4), of p d s] t by simp
  obtain r' s4 where f: "mp4_finally E p (canvas3d s) (isAnimating s) s3 = (r', s4)"
    by (cases "mp4_finally E p (canvas3d s) (isAnimating s) s3")
  have m4: "ctx_max s4 = ctx_max s3"
    using mp4_finally_any [of E p "canvas3d s" "isAnimating s" s3] f by simp
  have "snd (encodeMp4Animation E p s) = s4"
    using encodeMp4Animation_try [OF assms t f] by simp
  then show ?thesis using m4 i
    by (auto simp: in_try_def try_entry_state [OF assms(3,4)] mp4_frameRate split: option.splits)
qed

subsection \<open>Runs in which no call throws\<close>

lemma mp4_try_quiet:
  assumes q: "\<And>c. \<not> throws E c" and e: "encoder s = Some e"
    and N: "N = sampleCount d (frameRate e)" and dt: "dt = stepMs d N"
  shows "\<exists>s3. mp4_try E p d s = (None, s3)
     \<and> file_read s3 = Some (e\<lparr>rgba_frames := rgba_frames e @ map (sample_frame p dt (overridden p False (canvas3d s))) [0..N],
                              enc_finalized := True\<rparr>)
     \<and> ticks s3 = ticks s @ map (\<lambda>k. (js_mul (Some (of_int k)) dt, k, N)) [0..N]"
proof -
  let ?s1 = "(animation_play (pass_updateBackground (ctx_update_rendering (N + 1)
               ((case customBackground p of None \<Rightarrow> id
                 | Some c \<Rightarrow> canvas3d_setProps (Some c) (Some False)) (loop_resetTime 0 (loop_stop s))))))
             \<lparr>stoppedAnimation := False\<rparr>"
  have sp: "mp4_try E p d s =
      run [mp4_loop E p N dt 0,
           ok (ctx_update ''Applying finishing touches...''),
           call E Stop (\<lambda>s. (animation_stop s)\<lparr>stoppedAnimation := True\<rparr>),
           call E Finalize
             (\<lambda>s. (on_encoder (\<lambda>e. e\<lparr>enc_finalized := True\<rparr>) s)\<lparr>finalized := True\<rparr>),
           call E ReadFile readFile] ?s1"
    by (simp add: mp4_try_def Let_def ok_def call_def e q N dt)
  have e1: "encoder ?s1 = Some e" and t1: "ticks ?s1 = ticks s"
    and c1: "canvas3d ?s1 = overridden p False (canvas3d s)"
    using e by (cases "customBackground p"; cases "canvas3d s";
                simp add: collaborators overridden_def canvas_props_const)+
  from mp4_loop_quiet [OF q e1, of p N dt 0]
  obtain sl where l: "mp4_loop E p N dt 0 ?s1 = (None, sl)"
    and el: "encoder sl = Some (e\<lparr>rgba_frames := rgba_frames e @ map (sample_frame p dt (canvas3d ?s1)) [0..N]\<rparr>)"
    and tl: "ticks sl = ticks ?s1 @ map (\<lambda>k. (js_mul (Some (of_int k)) dt, k, N)) [0..N]"
    by blast
  show ?thesis
    unfolding sp using l el tl t1 c1
    by (simp add: ok_def call_def q collaborators)
qed

lemma mp4_quiet:
  assumes q: "\<And>c. \<not> throws E c"
    and v: "validateViewport p = None" and du: "getDuration E (animation p) = Some d"
    and N: "N = sampleCount d (fps_of p)" and dt: "dt = stepMs d N"
  shows "\<exists>e s'. encodeMp4Animation E p s = (Inr (Some e), s')
     \<and> rgba_frames e = map (sample_frame p dt (overridden p False (canvas3d s))) [0..N]
     \<and> enc_width e = even_down (vp_width (viewport p))
     \<and> enc_height e = even_down (vp_height (viewport p))
     \<and> frameRate e = fps_of p
     \<and> ticks s' = ticks s @ map (\<lambda>k. (js_mul (Some (of_int k)) dt, k, N)) [0..N]"
proof -
  let ?e = "(configure p (new_H264MP4Encoder E))\<lparr>initialized := True\<rparr>"
  have en: "encoder (try_entry E p s) = Some ?e" by (rule try_entry_state(1) [OF q q])
  have N': "N = sampleCount d (frameRate ?e)" using N by (simp add: mp4_frameRate)
  from mp4_try_quiet [OF q en N' dt, of p]
  obtain s3 where t: "mp4_try E p d (try_entry E p s) = (None, s3)"
    and fr: "file_read s3 = Some (?e\<lparr>rgba_frames := rgba_frames ?e @ map (sample_frame p dt (overridden p False (canvas3d (try_entry E p s)))) [0..N],
                              enc_finalized := True\<rparr>)"
    and ti: "ticks s3 = ticks (try_entry E p s) @ map (\<lambda>k. (js_mul (Some (of_int k)) dt, k, N)) [0..N]"
    by blast
  from mp4_finally_quiet [OF q q q, of p "canvas3d s" "isAnimating s" s3]
  obtain s4 where f: "mp4_finally E p (canvas3d s) (isAnimating s) s3 = (None, s4)"
    and t4: "ticks s4 = ticks s3" and f4: "file_read s4 = file_read s3"
    by blast
  have "encodeMp4Animation E p s = (Inr (file_read s4), s4)"
    using encodeMp4Animation_try [OF v du q q t f] by simp
  then show ?thesis
    using fr ti t4 f4
    by (simp add: try_entry_state [OF q q] configure_flags new_H264MP4Encoder_def fps_of_def)
qed

lemma webm_quiet:
  assumes q: "\<And>c. \<not> throws E c"
    and v: "validateViewport p = None" and du: "getDuration E (animation p) = Some d"
    and N: "N = sampleCount d (fps_of p)" and dt: "dt = stepMs d N"
    and fr: "fr = map (sample_frame p dt (overridden p True (canvas3d s))) [0..N]"
  shows "\<exists>s'. encodeWebmAnimation E p out s = (Inr (), s')
     \<and> ffmpeg_commands s' = ffmpeg_commands s @
         [\<lparr>videoCodec = ''hevc_nvenc'', input_width = width p, input_height = height p,
           input_rate = fps_of p, input_frames = fr, output_file = out @ ''.mov''\<rparr>,
          \<lparr>videoCodec = ''libvpx-vp9'', input_width = width p, input_height = height p,
           input_rate = fps_of p, input_frames = fr, output_file = out @ ''.webm''\<rparr>]
     \<and> ticks s' = ticks s @ map (\<lambda>k. (js_mul (Some (of_int k)) dt, k, N)) [0..N]
     \<and> console s' = console s"
proof -
  let ?s1 = "(animation_play (pass_updateBackground (ctx_update_rendering (N + 1)
               ((case customBackground p of None \<Rightarrow> id
                 | Some c \<Rightarrow> canvas3d_setProps (Some c) (Some True))
                (loop_resetTime 0 (loop_stop (pass_setProps (postprocessing p)
                   (ctx_update ''Initializing...'' s))))))))\<lparr>images := []\<rparr>"
  have sp: "webm_try E p out s =
      run [webm_loop E p N dt 0,
           call E (Ffmpeg (out @ ''.mov'')) (ffmpeg_save ''hevc_nvenc'' p (out @ ''.mov'')),
           call E (Ffmpeg (out @ ''.webm'')) (ffmpeg_save ''libvpx-vp9'' p (out @ ''.webm''))] ?s1"
    by (simp add: webm_try_def Let_def ok_def call_def q v du N dt)
  have i1: "images ?s1 = []" and t1: "ticks ?s1 = ticks s"
    and f1: "ffmpeg_commands ?s1 = ffmpeg_commands s" and o1: "console ?s1 = console s"
    and c1: "canvas3d ?s1 = overridden p True (canvas3d s)"
    by (cases "customBackground p"; cases "canvas3d s";
                simp add: collaborators overridden_def canvas_props_const)+
  from webm_loop_quiet [OF q, of p N dt 0 ?s1]
  obtain sl where l: "webm_loop E p N dt 0 ?s1 = (None, sl)"
    and il: "images sl = images ?s1 @ map (sample_frame p dt (canvas3d ?s1)) [0..N]"
    and tl: "ticks sl = ticks ?s1 @ map (\<lambda>k. (js_mul (Some (of_int k)) dt, k, N)) [0..N]"
    and fl: "ffmpeg_commands sl = ffmpeg_commands ?s1" and ol: "console sl = console ?s1"
    by blast
  show ?thesis
    unfolding encodeWebmAnimation_def sp using l il tl fl ol i1 t1 f1 o1 c1 fr
    by (simp add: ok_def call_def q ffmpeg_save_def)
qed

lemma webm2_quiet:
  assumes q: "\<And>c. \<not> throws E c"
    and v: "validateViewport p = None" and du: "getDuration E (animation p) = Some d"
    and N: "N = sampleCount d (fps_of p)" and dt: "dt = stepMs d N"
    and fr: "fr = map (sample_frame p dt (overridden p False (canvas3d s))) [0..N]"
  shows "\<exists>s'. encodeWebmAnimation2 E p s = (None, s')
     \<and> ffmpeg_commands s' = ffmpeg_commands s @
         [\<lparr>videoCodec = ''libvpx-vp9'', input_width = width p, input_height = height p,
           input_rate = fps_of p, input_frames = fr, output_file = ''../outputs_1qtn-4/video.webm''\<rparr>]
     \<and> ticks s' = ticks s @ map (\<lambda>k. (js_mul (Some (of_int k)) dt, k, N)) [0..N]
     \<and> console s' = console s"
proof -
  let ?s1 = "(animation_play (pass_updateBackground (ctx_update_rendering (N + 1)
               ((case customBackground p of None \<Rightarrow> id
                 | Some c \<Rightarrow> canvas3d_setProps (Some c) (Some False))
                (loop_resetTime 0 (loop_stop (pass_setProps (postprocessing p)
                   (ctx_update ''Initializing...'' s))))))))\<lparr>images := []\<rparr>"
  have sp: "webm2_try E p s =
      run [webm_loop E p N dt 0,
           call E (Ffmpeg ''../outputs_1qtn-4/video.webm'')
             (ffmpeg_save ''libvpx-vp9'' p ''../outputs_1qtn-4/video.webm'')] ?s1"
    by (simp add: webm2_try_def Let_def ok_def call_def q v du N dt)
  have i1: "images ?s1 = []" and t1: "ticks ?s1 = ticks s"
    and f1: "ffmpeg_commands ?s1 = ffmpeg_commands s" and o1: "console ?s1 = console s"
    and c1: "canvas3d ?s1 = overridden p False (canvas3d s)"
    by (cases "customBackground p"; cases "canvas3d s";
                simp add: collaborators overridden_def canvas_props_const)+
  from webm_loop_quiet [OF q, of p N dt 0 ?s1]
  obtain sl where l: "webm_loop E p N dt 0 ?s1 = (None, sl)"
    and il: "images sl = images ?s1 @ map (sample_frame p dt (canvas3d ?s1)) [0..N]"
    and tl: "ticks sl = ticks ?s1 @ map (\<lambda>k. (js_mul (Some (of_int k)) dt, k, N)) [0..N]"
    and fl: "ffmpeg_commands sl = ffmpeg_commands ?s1" and ol: "console sl = console ?s1"
    by blast
  show ?thesis
    unfolding encodeWebmAnimation2_def sp using l il tl fl ol i1 t1 f1 o1 c1 fr
    by (simp add: ok_def call_def q ffmpeg_save_def)
qed

lemma webm_ctx_max:
  assumes "validateViewport p = None" "getDuration E (animation p) = Some d"
  shows "ctx_max (snd (encodeWebmAnimation E p out s)) = sampleCount d (fps_of p) + 1"
proof -
  let ?N = "sampleCount d (fps_of p)"
  let ?s1 = "ctx_update_rendering (?N + 1)
               ((case customBackground p of None \<Rightarrow> id
                 | Some c \<Rightarrow> canvas3d_setProps (Some c) (Some True))
                (loop_resetTime 0 (loop_stop (pass_setProps (postprocessing p)
                   (ctx_update ''Initializing...'' s)))))"
  let ?rest = "[call E UpdateBackground pass_updateBackground,
                call E Play animation_play,
                ok (\<lambda>s. s\<lparr>images := []\<rparr>),
                webm_loop E p ?N (stepMs d ?N) 0,
                call E (Ffmpeg (out @ ''.mov'')) (ffmpeg_save ''hevc_nvenc'' p (out @ ''.mov'')),
                call E (Ffmpeg (out @ ''.webm'')) (ffmpeg_save ''libvpx-vp9'' p (out @ ''.webm''))]"
  have sp: "webm_try E p out s = run ?rest ?s1"
    by (simp add: webm_try_def Let_def ok_def assms)
  have i1: "ctx_max ?s1 = ?N + 1" by (simp add: ctx_update_rendering_def)
  have "ctx_max (snd (run ?rest ?s1)) = ?N + 1"
  proof (rule run_inv [where I = "\<lambda>t::state. ctx_max t = ?N + 1", OF _ i1])
    fix f and t :: state assume f: "f \<in> set ?rest" and t: "ctx_max t = ?N + 1"
    from f consider "f = call E UpdateBackground pass_updateBackground"
      | "f = call E Play animation_play" | "f = ok (\<lambda>s. s\<lparr>images := []\<rparr>)"
      | "f = webm_loop E p ?N (stepMs d ?N) 0"
      | "f = call E (Ffmpeg (out @ ''.mov'')) (ffmpeg_save ''hevc_nvenc'' p (out @ ''.mov''))"
      | "f = call E (Ffmpeg (out @ ''.webm'')) (ffmpeg_save ''libvpx-vp9'' p (out @ ''.webm''))"
      by (simp only: set_simps insert_iff empty_iff) blast
    then show "ctx_max (snd (f t)) = ?N + 1"
      using t by cases
        (simp_all add: call_def ok_def collaborators ffmpeg_save_def webm_loop_ctx_max
           del: webm_loop.simps)
  qed
  then have "ctx_max (snd (webm_try E p out s)) = ?N + 1" by (simp only: sp)
  then show ?thesis
    by (cases "webm_try E p out s"; cases "fst (webm_try E p out s)")
       (simp_all add: encodeWebmAnimation_def)
qed

lemma webm2_ctx_max:
  assumes "validateViewport p = None" "getDuration E (animation p) = Some d"
  shows "ctx_max (snd (encodeWebmAnimation2 E p s)) = sampleCount d (fps_of p) + 1"
proof -
  let ?N = "sampleCount d (fps_of p)"
  let ?s1 = "ctx_update_rendering (?N + 1)
               ((case customBackground p of None \<Rightarrow> id
                 | Some c \<Rightarrow> canvas3d_setProps (Some c) (Some False))
                (loop_resetTime 0 (loop_stop (pass_setProps (postprocessing p)
                   (ctx_update ''Initializing...'' s)))))"
  let ?rest = "[call E UpdateBackground pass_updateBackground,
                call E Play animation_play,
                ok (\<lambda>s. s\<lparr>images := []\<rparr>),
                webm_loop E p ?N (stepMs d ?N) 0,
                call E (Ffmpeg ''../outputs_1qtn-4/video.webm'')
                  (ffmpeg_save ''libvpx-vp9'' p ''../outputs_1qtn-4/video.webm'')]"
  have sp: "webm2_try E p s = run ?rest ?s1"
    by (simp add: webm2_try_def Let_def ok_def assms)
  have i1: "ctx_max ?s1 = ?N + 1" by (simp add: ctx_update_rendering_def)
  have "ctx_max (snd (run ?rest ?s1)) = ?N + 1"
  proof (rule run_inv [where I = "\<lambda>t::state. ctx_max t = ?N + 1", OF _ i1])
    fix f and t :: state assume f: "f \<in> set ?rest" and t: "ctx_max t = ?N + 1"
    from f consider "f = call E UpdateBackground pass_updateBackground"
      | "f = call E Play animation_play" | "f = ok (\<lambda>s. s\<lparr>images := []\<rparr>)"
      | "f = webm_loop E p ?N (stepMs d ?N) 0"
      | "f = call E (Ffmpeg ''../outputs_1qtn-4/video.webm'')
                  (ffmpeg_save ''libvpx-vp9'' p ''../outputs_1qtn-4/video.webm'')"
      by (simp only: set_simps insert_iff empty_iff) blast
    then show "ctx_max (snd (f t)) = ?N + 1"
      using t by cases
        (simp_all add: call_def ok_def collaborators ffmpeg_save_def webm_loop_ctx_max
           del: webm_loop.simps)
  qed
  then have "ctx_max (snd (webm2_try E p s)) = ?N + 1" by (simp only: sp)
  then show ?thesis
    by (cases "webm2_try E p s"; cases "fst (webm2_try E p s)")
       (simp_all add: encodeWebmAnimation2_def)
qed

subsection \<open>The sample schedule\<close>

text \<open>The product of the schedule is at most four times the exact product.\<close>

lemma sampleCount_product:
  "js_mul (js_div d 1000) (Some f) = Some P \<Longrightarrow> sampleCount d f = \<lceil>P\<rceil>"
  by (simp add: sampleCount_def js_ceil_def)

lemma product_bounds:
  assumes "0 \<le> d" "0 \<le> f" "js_mul (js_div d 1000) (Some f) = Some P"
  shows "0 \<le> P" "P \<le> d * f / 250"
proof -
  from assms(3) obtain a where a: "dbl (d / 1000) = Some a" and P: "dbl (a * f) = Some P"
    by (auto simp: js_mul_def js_div_def split: option.splits)
  have d: "0 \<le> d / 1000" using assms(1) by simp
  have a0: "0 \<le> a" and a2: "a \<le> 2 * (d / 1000)"
    using dbl_nonneg [OF d a] dbl_le_twice [OF d a] by simp_all
  have af: "0 \<le> a * f" using a0 assms(2) by simp
  show "0 \<le> P" using dbl_nonneg [OF af P] .
  have "P \<le> 2 * (a * f)" using dbl_le_twice [OF af P] .
  also have "a * f \<le> 2 * (d / 1000) * f" using a2 assms(2) by (rule mult_right_mono)
  finally show "P \<le> d * f / 250" by simp
qed

lemma exponent_range: "(2::rat) ^ (emin + 1024) * 2 ^ 52 \<le> 125 * (2 ^ emin * 2 ^ emin)"
proof -
  have "(2::rat) ^ (emin + 1024 + 52) \<le> 2 ^ (emin + emin + 6)"
    by (intro power_increasing) (simp_all add: emin_def)
  also have "\<dots> = (2::rat) ^ emin * 2 ^ emin * 2 ^ 6" by (simp only: power_add)
  also have "\<dots> = 64 * ((2::rat) ^ emin * 2 ^ emin)" by simp
  also have "\<dots> \<le> 125 * ((2::rat) ^ emin * 2 ^ emin)" by (intro mult_right_mono) simp_all
  finally show ?thesis by (simp only: power_add)
qed

lemma pow2_Suc: "n = Suc m \<Longrightarrow> (2::rat) ^ n = 2 * 2 ^ m"
  by simp

text \<open>
  The schedule of a job with a positive duration \<open>d\<close>, a positive frame rate \<open>f\<close> and a
  positive product \<open>P\<close>. With one sample the step is \<open>d\<close>. With more, \<open>N < 2 * P\<close> and
  \<open>P \<le> d * f / 250\<close>, so the exact quotient \<open>d / N\<close> is above \<open>125 / f\<close>, which is above
  \<open>1 / 2^1022\<close>: the step is rounded with a relative error of at most \<open>1 / 2^53\<close>, and it
  is above 0.
\<close>

lemma schedule_step:
  assumes dd: "dbl d = Some d" and df: "dbl f = Some f" and d0: "0 < d" and f0: "0 < f"
    and P: "js_mul (js_div d 1000) (Some f) = Some P" and P0: "0 < P"
    and N: "N = sampleCount d f"
  shows "1 \<le> N"
    and "\<exists>dt. stepMs d N = Some dt \<and> 0 < dt \<and> \<bar>dt - d / of_int N\<bar> \<le> d / of_int N / 2 ^ 53
           \<and> (N = 1 \<or> 2 ^ 52 \<le> d / of_int N * 2 ^ emin)"
proof -
  have Nc: "N = \<lceil>P\<rceil>" using N sampleCount_product [OF P] by simp
  then show n1: "1 \<le> N" using P0 by simp
  show "\<exists>dt. stepMs d N = Some dt \<and> 0 < dt \<and> \<bar>dt - d / of_int N\<bar> \<le> d / of_int N / 2 ^ 53
           \<and> (N = 1 \<or> 2 ^ 52 \<le> d / of_int N * 2 ^ emin)"
  proof (cases "N = 1")
    case True
    then have "stepMs d N = Some d" using dd by (simp add: stepMs_def js_div_def)
    then show ?thesis using True d0 by simp
  next
    case False
    then have n2: "2 \<le> N" using n1 by simp
    define x where "x = d / of_int N"
    have Nr: "(2::rat) \<le> of_int N" using n2 by simp
    have x0: "0 < x" using d0 Nr by (simp add: x_def)
    have "1 < \<lceil>P\<rceil>" using n2 Nc by simp
    then have P1: "1 < P" by (simp add: less_ceiling_iff)
    have "of_int N < P + 1" unfolding Nc by linarith
    then have "of_int N < 2 * P" using P1 by simp
    also have "\<dots> \<le> 2 * (d * f / 250)"
      using product_bounds(2) [OF _ _ P] d0 f0 by simp
    finally have "of_int N * 125 < d * f" by simp
    then have xf: "125 < x * f" using Nr by (simp add: x_def field_simps)
    have fr: "f * 2 ^ emin < 2 ^ (emin + 1024)" using dbl_representable(2) [OF f0 df] .
    have fp: "0 < f * 2 ^ emin" using f0 by simp
    have "(f * 2 ^ emin) * 2 ^ 52 < 2 ^ (emin + 1024) * 2 ^ 52"
      using fr by (intro mult_strict_right_mono) simp_all
    also have "\<dots> \<le> 125 * ((2::rat) ^ emin * 2 ^ emin)" by (rule exponent_range)
    also have "\<dots> < (x * f) * ((2::rat) ^ emin * 2 ^ emin)"
      using xf by (intro mult_strict_right_mono) simp_all
    also have "\<dots> = (f * 2 ^ emin) * (x * 2 ^ emin)" by simp
    finally have "2 ^ 52 < x * 2 ^ emin" using fp by (simp only: mult_less_cancel_left_pos)
    then have nrm: "2 ^ 52 \<le> x * 2 ^ emin" by simp
    then have half: "1 / 2 < x * 2 ^ emin" by simp
    have dr: "d * 2 ^ emin < 2 ^ (emin + 1024)" using dbl_representable(2) [OF d0 dd] .
    have "x \<le> d / 2" using d0 Nr by (simp add: x_def field_simps)
    then have "x * 2 ^ emin \<le> d / 2 * 2 ^ emin" by (intro mult_right_mono) simp_all
    also have "\<dots> < 2 ^ (emin + 1024) / 2" using dr by simp
    also have "\<dots> = (2::rat) ^ (emin + 1023)"
      by (simp add: pow2_Suc [of "emin + 1024" "emin + 1023"])
    finally have fin: "x * 2 ^ emin < 2 ^ (emin + 1023)" .
    have x0': "0 \<le> x" using x0 by simp
    from dbl_finite [OF x0' fin] obtain dt where dt: "dbl x = Some dt" by blast
    have "N \<noteq> 0" using n2 by simp
    then have "stepMs d N = Some dt" using dt by (simp add: stepMs_def js_div_def x_def)
    moreover have "0 < dt" using dbl_pos [OF x0' half dt] .
    moreover have "\<bar>dt - x\<bar> \<le> x / 2 ^ 53" using dbl_rel_error [OF x0' nrm dt] .
    ultimately show ?thesis using nrm unfolding x_def by blast
  qed
qed

text \<open>The last tick: \<open>N\<close> times the step is rounded once more, and is within \<open>d / 2^51\<close> of
  \<open>d\<close>.\<close>

lemma last_tick:
  assumes dd: "dbl d = Some d" and df: "dbl f = Some f" and d0: "0 < d" and f0: "0 < f"
    and P: "js_mul (js_div d 1000) (Some f) = Some P" and P0: "0 < P"
    and N: "N = sampleCount d f" and dm: "d \<le> 2 ^ 1022"
  shows "\<exists>T. js_mul (Some (of_int N)) (stepMs d N) = Some T \<and> \<bar>T - d\<bar> \<le> d / 2 ^ 51"
proof -
  from schedule_step [OF dd df d0 f0 P P0 N]
  obtain dt where n1: "1 \<le> N" and dt: "stepMs d N = Some dt"
    and e: "\<bar>dt - d / of_int N\<bar> \<le> d / of_int N / 2 ^ 53"
    and c: "N = 1 \<or> 2 ^ 52 \<le> d / of_int N * 2 ^ emin" by blast
  show ?thesis
  proof (cases "N = 1")
    case True
    then have "dt = d" using dt dd by (simp add: stepMs_def js_div_def)
    then show ?thesis using True dt dd d0 by (simp add: js_mul_def)
  next
    case False
    then have n2: "2 \<le> N" using n1 by simp
    then have Nr: "(2::rat) \<le> of_int N" by simp
    have nrm: "2 ^ 52 \<le> d / of_int N * 2 ^ emin" using c False by simp
    define x where "x = of_int N * dt"
    define u where "u = d / 2 ^ 53"
    have u0: "0 < u" using d0 by (simp add: u_def)
    have "x - d = of_int N * (dt - d / of_int N)" using Nr by (simp add: x_def right_diff_distrib)
    then have "\<bar>x - d\<bar> = of_int N * \<bar>dt - d / of_int N\<bar>" using Nr by (simp add: abs_mult)
    also have "\<dots> \<le> of_int N * (d / of_int N / 2 ^ 53)" using e Nr by (intro mult_left_mono) simp_all
    also have "\<dots> = u" using Nr by (simp add: u_def)
    finally have xd: "\<bar>x - d\<bar> \<le> u" .
    have ud: "u \<le> d / 2" using d0 by (simp add: u_def)
    have xl: "d / 2 \<le> x" and xu: "x \<le> d + u" and xu2: "x < 2 * d" using xd ud d0 by linarith+
    have x0: "0 \<le> x" using xl d0 by simp
    have "d / of_int N \<le> d / 2" using d0 Nr by (simp add: field_simps)
    then have "d / of_int N \<le> x" using xl by linarith
    then have "d / of_int N * 2 ^ emin \<le> x * 2 ^ emin" by (intro mult_right_mono) simp_all
    then have xn: "2 ^ 52 \<le> x * 2 ^ emin" using nrm by simp
    have "d * 2 ^ emin \<le> 2 ^ 1022 * 2 ^ emin" using dm by (intro mult_right_mono) simp_all
    then have dm': "d * 2 ^ emin \<le> 2 ^ (emin + 1022)" by (simp only: power_add mult.commute)
    have "x * 2 ^ emin < 2 * d * 2 ^ emin" using xu2 by (intro mult_strict_right_mono) simp_all
    also have "\<dots> \<le> 2 * 2 ^ (emin + 1022)" using dm' by simp
    also have "\<dots> = (2::rat) ^ (emin + 1023)"
      by (simp add: pow2_Suc [of "emin + 1023" "emin + 1022"])
    finally have fin: "x * 2 ^ emin < 2 ^ (emin + 1023)" .
    from dbl_finite [OF x0 fin] obtain T where T: "dbl x = Some T" by blast
    have "\<bar>T - x\<bar> \<le> x / 2 ^ 53" using dbl_rel_error [OF x0 xn T] .
    also have "\<dots> \<le> 2 * u" using xu2 by (simp add: u_def)
    finally have "\<bar>T - d\<bar> \<le> 3 * u" using xd by linarith
    also have "\<dots> \<le> d / 2 ^ 51" using d0 by (simp add: u_def)
    finally have "\<bar>T - d\<bar> \<le> d / 2 ^ 51" .
    moreover have "js_mul (Some (of_int N)) (stepMs d N) = Some T"
      using T dt by (simp add: js_mul_def x_def)
    ultimately show ?thesis by blast
  qed
qed

text \<open>The schedules of the jobs that the statements below run.\<close>

lemma dbl_tenth: "dbl (1 / 10) = Some (3602879701896397 / 36028797018963968)"
  by (rule dbl_eval [where j = 56 and m = 7205759403792794]) (simp_all add: emin_def)

lemma sampleCount_100: "sampleCount 100 30 = 3"
proof -
  have "dbl (3602879701896397 / 36028797018963968 * 30) = Some 3"
    by (rule dbl_eval [where j = 51 and m = 6755399441055744]) (simp_all add: emin_def)
  then show ?thesis by (simp add: sampleCount_def js_div_def js_mul_def js_ceil_def dbl_tenth)
qed

lemma sampleCount_5000: "sampleCount 5000 30 = 150"
  by (simp add: sampleCount_def js_div_def js_mul_def js_ceil_def dbl_numeral)

lemma sampleCount_0: "sampleCount 0 f = 0"
  by (simp add: sampleCount_def js_div_def js_mul_def js_ceil_def dbl_zero)

lemma dbl_third: "dbl (100 / 3) = Some (4691249611844267 / 140737488355328)"
  by (rule dbl_eval [where j = 47 and m = 4691249611844267]) (simp_all add: emin_def)

lemma stepMs_5000: "stepMs 5000 150 = Some (4691249611844267 / 140737488355328)"
  by (simp add: stepMs_def js_div_def dbl_third)

lemma product_280: "js_mul (js_div 280 1000) (Some 25) = Some (7881299347898369 / 1125899906842624)"
proof -
  have a: "dbl (7 / 25) = Some (1261007895663739 / 4503599627370496)"
    by (rule dbl_eval [where j = 54 and m = 5044031582654956]) (simp_all add: emin_def)
  have b: "dbl (1261007895663739 / 4503599627370496 * 25) = Some (7881299347898369 / 1125899906842624)"
    by (rule dbl_eval [where j = 50 and m = 7881299347898369]) (simp_all add: emin_def)
  from b show ?thesis by (simp add: js_div_def js_mul_def a)
qed

lemma sampleCount_280: "sampleCount 280 25 = 8"
  by (simp add: sampleCount_def js_ceil_def product_280 ceiling_eq_iff)

lemma stepMs_280: "stepMs 280 8 = Some 35"
  by (simp add: stepMs_def js_div_def dbl_numeral)

lemma sampleCount_1000: "sampleCount 1000 30 = 30"
  by (simp add: sampleCount_def js_div_def js_mul_def js_ceil_def dbl_numeral dbl_one)

lemma stepMs_1000: "stepMs 1000 30 = Some (4691249611844267 / 140737488355328)"
  by (simp add: stepMs_def js_div_def dbl_third)

lemma last_tick_1000:
  "js_mul (Some 30) (Some (4691249611844267 / 140737488355328)) = Some (8796093022208001 / 8796093022208)"
proof -
  have "dbl (30 * (4691249611844267 / 140737488355328)) = Some (8796093022208001 / 8796093022208)"
    by (rule dbl_eval [where j = 43 and m = 8796093022208001]) (simp_all add: emin_def)
  then show ?thesis by (simp add: js_mul_def)
qed

lemma sampleCount_least: "sampleCount (1 / 2 ^ 1074) 30 = 0"
proof -
  have "dbl (1 / 2 ^ emin / 1000) = Some 0" by (rule dbl_tiny) simp_all
  then have "js_div (1 / 2 ^ 1074) 1000 = Some 0" by (simp add: js_div_def emin_def)
  then show ?thesis by (simp add: sampleCount_def js_mul_def js_ceil_def dbl_zero)
qed

lemma dbl_least: "dbl (1 / 2 ^ 1074) = Some (1 / 2 ^ 1074)"
proof -
  have x: "(0::rat) \<le> 1 / 2 ^ emin" by simp
  have s: "(1::rat) = 1 / 2 ^ emin * 2 ^ emin" by simp
  have k: "0 = floorlog 2 (nat \<lfloor>1::rat\<rfloor>) - 53" by (simp add: floorlog_def)
  have m: "1 = round_even (1 / 2 ^ 0)" by (simp add: round_even_def)
  have "(1::int) < 2 ^ (emin + 1024)" by (intro one_less_power) simp_all
  then have "dbl (1 / 2 ^ emin) = Some (1 / 2 ^ emin)"
    unfolding dbl_unfold [OF x s k m] by (simp add: not_le)
  then show ?thesis by (simp add: emin_def)
qed

section \<open>The claims\<close>

subsection \<open>C1: sample count and frames\<close>

text \<open>
  C1, as amended. Take a job whose viewport is within bounds and whose animation has a
  duration \<open>d\<close> with \<open>0 < d \<le> 2^1022\<close>, at a frame rate above 0 (\<open>params.fps\<close>, or 30 when
  it is falsy), such that the product \<open>d / 1000 * fps\<close>, as computed in doubles, is a
  number \<open>P\<close> with \<open>0 < P < 2^53\<close>, and let no call throw. Then the sample count is
  \<open>N = ceil P\<close>, which is at least 1; \<open>encodeMp4Animation\<close> returns the file of an encoder
  that was given exactly the frames of the samples \<open>0, ..., N\<close>, each once and in this
  order, and \<open>encodeWebmAnimation\<close> hands the frames of the same samples, in the same
  order, to each of its two ffmpeg commands. Each sequence has \<open>N + 1\<close> frames, frame \<open>i\<close>
  taken at the time \<open>i * stepMs\<close>, a product of doubles: the first at time 0, the last at
  a time within \<open>d / 2^51\<close> of \<open>d\<close>.
\<close>

theorem all_samples_reach_the_encoder:
  assumes "validateViewport p = None" "getDuration E (animation p) = Some d"
    "dbl d = Some d" "dbl (fps_of p) = Some (fps_of p)" "0 < d" "0 < fps_of p"
    "js_mul (js_div d 1000) (Some (fps_of p)) = Some P" "0 < P"
    "N = sampleCount d (fps_of p)"
    "P < 2 ^ 53" "d \<le> 2 ^ 1022" "\<And>c. \<not> throws E c"
    "fr = map (sample_frame p (stepMs d N) (overridden p False (canvas3d s))) [0..N]"
    "fr' = map (sample_frame p (stepMs d N) (overridden p True (canvas3d s))) [0..N]"
  shows "N = \<lceil>P\<rceil> \<and> 1 \<le> N
     \<and> (\<exists>e s'. encodeMp4Animation E p s = (Inr (Some e), s') \<and> rgba_frames e = fr)
     \<and> (\<exists>s'. encodeWebmAnimation E p out s = (Inr (), s')
           \<and> map input_frames (ffmpeg_commands s') = map input_frames (ffmpeg_commands s) @ [fr', fr'])
     \<and> length fr = nat (N + 1) \<and> length fr' = nat (N + 1)
     \<and> map f_currentFrame fr = [0..N] \<and> map f_currentFrame fr' = [0..N]
     \<and> map f_time fr = map (\<lambda>i. js_mul (Some (of_int i)) (stepMs d N)) [0..N]
     \<and> map f_time fr' = map (\<lambda>i. js_mul (Some (of_int i)) (stepMs d N)) [0..N]
     \<and> f_time (fr ! 0) = Some 0 \<and> f_time (fr' ! 0) = Some 0
     \<and> (\<exists>T. f_time (fr ! nat N) = Some T \<and> f_time (fr' ! nat N) = Some T
           \<and> \<bar>T - d\<bar> \<le> d / 2 ^ 51)"
proof -
  note sch = assms(3-9)
  from schedule_step [OF sch] obtain dt where n: "1 \<le> N" and dt: "stepMs d N = Some dt"
    by blast
  from last_tick [OF sch assms(11)] obtain T
    where T: "js_mul (Some (of_int N)) (stepMs d N) = Some T" "\<bar>T - d\<bar> \<le> d / 2 ^ 51"
    by blast
  have c: "N = \<lceil>P\<rceil>" using assms(9) sampleCount_product [OF assms(7)] by simp
  from mp4_quiet [OF assms(12,1,2,9) refl, of s]
  have a: "\<exists>e s'. encodeMp4Animation E p s = (Inr (Some e), s') \<and> rgba_frames e = fr"
    using assms(13) by auto
  from webm_quiet [OF assms(12,1,2,9) refl assms(14), of out]
  have b: "\<exists>s'. encodeWebmAnimation E p out s = (Inr (), s')
           \<and> map input_frames (ffmpeg_commands s') = map input_frames (ffmpeg_commands s) @ [fr', fr']"
    by auto
  have l: "length fr = nat (N + 1)" "length fr' = nat (N + 1)"
    using n assms(13,14) by simp_all
  have ix: "map f_currentFrame fr = [0..N]" "map f_currentFrame fr' = [0..N]"
    using assms(13,14) by (simp_all add: sample_frame_def comp_def)
  have tm: "map f_time fr = map (\<lambda>i. js_mul (Some (of_int i)) (stepMs d N)) [0..N]"
    "map f_time fr' = map (\<lambda>i. js_mul (Some (of_int i)) (stepMs d N)) [0..N]"
    using assms(13,14) by (simp_all add: sample_frame_def comp_def)
  have z: "[0..N] ! 0 = 0" "[0..N] ! nat N = N" using n by (simp_all add: nth_upto)
  have z0: "js_mul (Some 0) (stepMs d N) = Some 0" by (simp add: dt js_mul_def dbl_zero)
  have t0: "f_time (fr ! 0) = Some 0" "f_time (fr' ! 0) = Some 0"
    using n z z0 assms(13,14) by (simp_all add: sample_frame_def)
  have tN: "f_time (fr ! nat N) = Some T" "f_time (fr' ! nat N) = Some T"
    using n z T(1) assms(13,14) by (simp_all add: sample_frame_def)
  show ?thesis using a b l ix tm t0 tN T(2) c n by blast
qed

text \<open>280 ms at 25 frames per second: the product of the doubles is just above 7, so
  there are 8 samples and 9 frames, taken every 35 ms from 0 ms to 280 ms.\<close>

theorem all_samples_reach_the_encoder_witness:
  "validateViewport pal = None
   \<and> getDuration (env_of 280 []) (animation pal) = Some 280
   \<and> dbl 280 = Some 280 \<and> fps_of pal = 25 \<and> dbl 25 = Some 25
   \<and> js_mul (js_div 280 1000) (Some 25) = Some (7881299347898369 / 1125899906842624)
   \<and> sampleCount 280 25 = 8
   \<and> (\<exists>e s'. encodeMp4Animation (env_of 280 []) pal idle = (Inr (Some e), s')
         \<and> length (rgba_frames e) = 9
         \<and> map f_currentFrame (rgba_frames e) = [0, 1, 2, 3, 4, 5, 6, 7, 8]
         \<and> map f_time (rgba_frames e)
             = [Some 0, Some 35, Some 70, Some 105, Some 140, Some 175, Some 210, Some 245,
                Some 280])"
proof -
  have f: "fps_of pal = 25" by (simp add: fps_of_def truthy_def pal_def scenarioA_def)
  have g: "dbl 25 = Some 25" by (simp add: dbl_numeral)
  have v: "validateViewport pal = None"
    "getDuration (env_of 280 []) (animation pal) = Some 280"
    by (simp_all add: validateViewport_def pal_def inputs)
  have q: "\<And>c. \<not> throws (env_of 280 []) c" by (simp add: env_of_def)
  have n: "dbl 280 = Some 280" "dbl (fps_of pal) = Some (fps_of pal)"
    "(0::rat) < 280" "0 < fps_of pal"
    "js_mul (js_div 280 1000) (Some (fps_of pal)) = Some (7881299347898369 / 1125899906842624)"
    "(0::rat) < 7881299347898369 / 1125899906842624"
    "8 = sampleCount 280 (fps_of pal)"
    "(7881299347898369 / 1125899906842624 :: rat) < 2 ^ 53" "(280::rat) \<le> 2 ^ 1022"
    unfolding f by (simp_all add: dbl_numeral product_280 sampleCount_280)
  note h = v n q
  have t: "map (\<lambda>i. js_mul (Some (of_int i)) (stepMs 280 8)) [0..8]
      = [Some 0, Some 35, Some 70, Some 105, Some 140, Some 175, Some 210, Some 245, Some 280]"
    by (simp add: stepMs_280 js_mul_def dbl_numeral dbl_zero upto_rec1)
  have u: "[0..8] = [0, 1, 2, 3, 4, 5, 6, 7, 8::int]" by (simp add: upto_rec1)
  from all_samples_reach_the_encoder [OF h refl refl, of idle "''out''"]
  obtain e s' where "encodeMp4Animation (env_of 280 []) pal idle = (Inr (Some e), s')"
    "length (rgba_frames e) = 9" "map f_currentFrame (rgba_frames e) = [0..8]"
    "map f_time (rgba_frames e) = map (\<lambda>i. js_mul (Some (of_int i)) (stepMs 280 8)) [0..8]"
    by auto
  then show ?thesis using v n(1) f g product_280 sampleCount_280 t u
    by simp
qed

text \<open>
  C1 as stated fails for a duration of 0 ms, which is a defined duration: the sample
  count is 0, the step is the quotient 0 / 0, and the one frame of the job is taken at
  the time \<open>0 * NaN\<close>, which is not a number; no frame is taken at time 0. And it fails
  for the last frame of a job of 1000 ms at 30 frames per second: the step is the double
  nearest to 100 / 3, and the last of the 31 frames is taken at 30 times that step, which
  in doubles is \<open>1000 + 1 / 2^43\<close> and not the duration.
\<close>

theorem frame_times_off_the_claim:
  "validateViewport scenarioA = None
   \<and> getDuration (env_of 0 []) (animation scenarioA) = Some 0
   \<and> \<not> isl (fst (encodeMp4Animation (env_of 0 []) scenarioA idle))
   \<and> sampleCount 0 (fps_of scenarioA) = 0
   \<and> map f_time (rendered (snd (encodeMp4Animation (env_of 0 []) scenarioA idle))) = [None]
   \<and> Some 0 \<notin> set (map f_time (rendered (snd (encodeMp4Animation (env_of 0 []) scenarioA idle))))
   \<and> getDuration (env_of 1000 []) (animation scenarioA) = Some 1000
   \<and> sampleCount 1000 (fps_of scenarioA) = 30
   \<and> map_option (length \<circ> rgba_frames)
        (projr (fst (encodeMp4Animation (env_of 1000 []) scenarioA idle))) = Some 31
   \<and> map_option (f_time \<circ> last \<circ> rgba_frames)
        (projr (fst (encodeMp4Animation (env_of 1000 []) scenarioA idle)))
       = Some (Some (1000 + 1 / 2 ^ 43))"
proof -
  have a: "validateViewport scenarioA = None
   \<and> getDuration (env_of 0 []) (animation scenarioA) = Some 0
   \<and> \<not> isl (fst (encodeMp4Animation (env_of 0 []) scenarioA idle))
   \<and> sampleCount 0 (fps_of scenarioA) = 0
   \<and> map f_time (rendered (snd (encodeMp4Animation (env_of 0 []) scenarioA idle))) = [None]
   \<and> Some 0 \<notin> set (map f_time (rendered (snd (encodeMp4Animation (env_of 0 []) scenarioA idle))))"
    by (simp add: statements collaborators inputs sampleCount_0 stepMs_def js_div_def js_mul_def
          mp4_loop.simps)
  have f: "fps_of scenarioA = 30" by (simp add: fps_of_def truthy_def scenarioA_def)
  have q: "\<And>c. \<not> throws (env_of 1000 []) c" by (simp add: env_of_def)
  have v: "validateViewport scenarioA = None"
    and d: "getDuration (env_of 1000 []) (animation scenarioA) = Some 1000"
    by (simp_all add: validateViewport_def inputs)
  have n: "30 = sampleCount 1000 (fps_of scenarioA)" unfolding f by (simp add: sampleCount_1000)
  from mp4_quiet [OF q v d n refl, of idle]
  obtain e s' where r: "encodeMp4Animation (env_of 1000 []) scenarioA idle = (Inr (Some e), s')"
    and fr: "rgba_frames e = map (sample_frame scenarioA (stepMs 1000 30)
                                   (overridden scenarioA False (canvas3d idle))) [0..30]"
    by blast
  have u: "[0..30] = [0..29] @ [30::int]" using upto_rec2 [of 0 30] by simp
  have l: "length (rgba_frames e) = 31" by (simp add: fr)
  have t: "f_time (last (rgba_frames e)) = Some (1000 + 1 / 2 ^ 43)"
    by (simp add: fr u sample_frame_def stepMs_1000 last_tick_1000)
  show ?thesis using a d n r l t by simp
qed

subsection \<open>C2: restoration of the presentation state\<close>

text \<open>
  C2, as amended. When none of the calls of the \<open>finally\<close> block throws,
  \<open>encodeMp4Animation\<close> leaves, on every exit path (return, validation error, missing
  duration, failure of the encoder, of the renderer, of the clock or of the animation
  manager), the canvas properties (background color and transparent background) as they
  were before the call, leaves no playback running that was not running before, and leaves
  the clock running if and only if it was running before. The postprocessing properties
  of the pass are not restored: once the job has initialized its encoder they are the
  properties merged with the overrides of the job, and they stay so.
\<close>

theorem mp4_restores_presentation:
  assumes "\<not> throws E Delete" "\<not> throws E StopInFinally" "\<not> throws E LoopStart"
  shows "canvas3d (snd (encodeMp4Animation E p s)) = canvas3d s
       \<and> isAnimating (snd (encodeMp4Animation E p s)) = isAnimating s
       \<and> \<not> (isPlaying (snd (encodeMp4Animation E p s)) \<and> \<not> isPlaying s)
       \<and> pass_postprocessing (snd (encodeMp4Animation E p s)) =
           (if validateViewport p = None \<and> getDuration E (animation p) \<noteq> None
               \<and> \<not> throws E CreateEncoder \<and> \<not> throws E Initialize
            then merge (pass_postprocessing s) (postprocessing p)
            else pass_postprocessing s)"
proof (cases "validateViewport p = None \<and> getDuration E (animation p) \<noteq> None
               \<and> \<not> throws E CreateEncoder \<and> \<not> throws E Initialize")
  case True
  then obtain d where d: "getDuration E (animation p) = Some d" by auto
  show ?thesis
    using mp4_restored [OF assms _ d, of s] True by simp
next
  case False
  then have "validateViewport p \<noteq> None \<or> getDuration E (animation p) = None
           \<or> throws E CreateEncoder \<or> throws E Initialize" by auto
  from mp4_early_exit [OF this, of s] False show ?thesis by auto
qed

text \<open>A job with a custom background whose encoder fails on the second frame: the
  error reaches the caller, the background is the old one again, the clock runs, nothing
  plays.\<close>

theorem mp4_restores_presentation_witness:
  "\<not> throws (env_of 100 [AddFrameRgba 1]) Delete
   \<and> \<not> throws (env_of 100 [AddFrameRgba 1]) StopInFinally
   \<and> \<not> throws (env_of 100 [AddFrameRgba 1]) LoopStart
   \<and> fst (encodeMp4Animation (env_of 100 [AddFrameRgba 1]) styled idle)
       = Inl (Threw (AddFrameRgba 1))
   \<and> canvas3d (snd (encodeMp4Animation (env_of 100 [AddFrameRgba 1]) styled idle))
       = Some \<lparr>backgroundColor = 7, transparentBackground = True\<rparr>
   \<and> isAnimating (snd (encodeMp4Animation (env_of 100 [AddFrameRgba 1]) styled idle))
   \<and> \<not> isPlaying (snd (encodeMp4Animation (env_of 100 [AddFrameRgba 1]) styled idle))"
proof -
  have h: "\<not> throws (env_of 100 [AddFrameRgba 1]) Delete"
    "\<not> throws (env_of 100 [AddFrameRgba 1]) StopInFinally"
    "\<not> throws (env_of 100 [AddFrameRgba 1]) LoopStart"
    by (simp_all add: inputs)
  have r: "fst (encodeMp4Animation (env_of 100 [AddFrameRgba 1]) styled idle)
       = Inl (Threw (AddFrameRgba 1))"
    by (simp add: statements collaborators inputs sampleCount_100 mp4_loop.simps)
  have i: "canvas3d idle = Some \<lparr>backgroundColor = 7, transparentBackground = True\<rparr>"
    "isAnimating idle" "\<not> isPlaying idle" by (simp_all add: idle_def)
  from mp4_restores_presentation [OF h, of styled idle]
  show ?thesis using h r i by simp
qed

text \<open>
  C2 as stated fails for the postprocessing properties: a job that overrides \<open>outline\<close>
  returns its file and leaves the override in the pass.
\<close>

theorem postprocessing_not_restored:
  "\<not> isl (fst (encodeMp4Animation (env_of 100 []) styled idle))
   \<and> pass_postprocessing idle ''outline'' = None
   \<and> pass_postprocessing (snd (encodeMp4Animation (env_of 100 []) styled idle)) ''outline''
       = Some ''on''"
  by (simp add: statements collaborators inputs sampleCount_100 mp4_loop.simps)

subsection \<open>C3: a viewport that exceeds the canvas\<close>

text \<open>
  C3. When \<open>viewport.x + viewport.width > width\<close> or \<open>viewport.y + viewport.height > height\<close>,
  \<open>encodeMp4Animation\<close> throws the validation error and leaves the state as it was, but
  for the progress message: no encoder has been created, no clock tick and no render
  call has been made, no frame has been captured, and the presentation state is
  untouched.
\<close>

theorem mp4_viewport_rejected:
  assumes "vp_x (viewport p) + vp_width (viewport p) > width p
         \<or> vp_y (viewport p) + vp_height (viewport p) > height p"
  shows "encodeMp4Animation E p s = (Inl ViewportExceeds, s\<lparr>ctx_message := ''Initializing...''\<rparr>)"
  using assms by (simp add: encodeMp4Animation_def validateViewport_def Let_def ctx_update_def)

text \<open>Scenario B: a viewport 801 wide on a canvas 800 wide.\<close>

theorem mp4_viewport_rejected_witness:
  "vp_x (viewport scenarioB) + vp_width (viewport scenarioB) > width scenarioB
   \<and> encodeMp4Animation (env_of 5000 []) scenarioB idle
       = (Inl ViewportExceeds, idle\<lparr>ctx_message := ''Initializing...''\<rparr>)
   \<and> rendered (idle\<lparr>ctx_message := ''Initializing...''\<rparr>) = []
   \<and> ticks (idle\<lparr>ctx_message := ''Initializing...''\<rparr>) = []
   \<and> encoder (idle\<lparr>ctx_message := ''Initializing...''\<rparr>) = None"
proof -
  have h: "vp_x (viewport scenarioB) + vp_width (viewport scenarioB) > width scenarioB"
    by (simp add: scenarioB_def scenarioA_def)
  from mp4_viewport_rejected [of scenarioB "env_of 5000 []" idle] h
  show ?thesis by (simp add: idle_def)
qed

subsection \<open>C4: the clock ticks\<close>

text \<open>
  C4, as amended. For a job as in C1 (within bounds, \<open>0 < d \<le> 2^1022\<close>, a frame rate above
  0, the product \<open>d / 1000 * fps\<close> in doubles a number \<open>P\<close> with \<open>0 < P < 2^53\<close>), when no
  call throws: the step \<open>d / N\<close>, a quotient of doubles, is a number above 0 within
  \<open>1 / 2^53\<close> of the exact quotient, relatively; the clock ticks of each of the three
  functions are exactly the ticks \<open>i\<close> for \<open>i = 0, ..., N\<close> in this order, tick \<open>i\<close> with the
  time \<open>i * step\<close> (the product in doubles), the frame index \<open>i\<close> and the frame count \<open>N\<close>;
  and step times sample count, in doubles, is within \<open>d / 2^51\<close> of \<open>d\<close>.
\<close>

theorem ticks_follow_the_schedule:
  assumes "validateViewport p = None" "getDuration E (animation p) = Some d"
    "dbl d = Some d" "dbl (fps_of p) = Some (fps_of p)" "0 < d" "0 < fps_of p"
    "js_mul (js_div d 1000) (Some (fps_of p)) = Some P" "0 < P"
    "N = sampleCount d (fps_of p)"
    "P < 2 ^ 53" "d \<le> 2 ^ 1022" "\<And>c. \<not> throws E c"
    "ts = map (\<lambda>i. (js_mul (Some (of_int i)) (stepMs d N), i, N)) [0..N]"
  shows "(\<exists>dt. stepMs d N = Some dt \<and> 0 < dt
            \<and> \<bar>dt - d / of_int N\<bar> \<le> d / of_int N / 2 ^ 53)
     \<and> ticks (snd (encodeMp4Animation E p s)) = ticks s @ ts
     \<and> ticks (snd (encodeWebmAnimation E p out s)) = ticks s @ ts
     \<and> ticks (snd (encodeWebmAnimation2 E p s)) = ticks s @ ts
     \<and> (\<exists>T. js_mul (Some (of_int N)) (stepMs d N) = Some T \<and> \<bar>T - d\<bar> \<le> d / 2 ^ 51)"
proof -
  note sch = assms(3-9)
  from schedule_step(2) [OF sch]
  have st: "\<exists>dt. stepMs d N = Some dt \<and> 0 < dt \<and> \<bar>dt - d / of_int N\<bar> \<le> d / of_int N / 2 ^ 53"
    by blast
  note lt = last_tick [OF sch assms(11)]
  from mp4_quiet [OF assms(12,1,2,9) refl, of s]
  have a: "ticks (snd (encodeMp4Animation E p s)) = ticks s @ ts" using assms(13) by auto
  from webm_quiet [OF assms(12,1,2,9) refl refl, of out s]
  have b: "ticks (snd (encodeWebmAnimation E p out s)) = ticks s @ ts" using assms(13) by auto
  from webm2_quiet [OF assms(12,1,2,9) refl refl, of s]
  have c: "ticks (snd (encodeWebmAnimation2 E p s)) = ticks s @ ts" using assms(13) by auto
  show ?thesis using st a b c lt by blast
qed

text \<open>280 ms at 25 frames per second: 8 samples, a step of 35 ms, and 9 ticks, at
  0, 35, ..., 280 ms.\<close>

theorem ticks_follow_the_schedule_witness:
  "validateViewport pal = None
   \<and> getDuration (env_of 280 []) (animation pal) = Some 280
   \<and> dbl 280 = Some 280 \<and> fps_of pal = 25 \<and> dbl 25 = Some 25
   \<and> js_mul (js_div 280 1000) (Some 25) = Some (7881299347898369 / 1125899906842624)
   \<and> sampleCount 280 25 = 8
   \<and> stepMs 280 8 = Some 35
   \<and> ticks (snd (encodeMp4Animation (env_of 280 []) pal idle))
       = [(Some 0, 0, 8), (Some 35, 1, 8), (Some 70, 2, 8), (Some 105, 3, 8), (Some 140, 4, 8),
          (Some 175, 5, 8), (Some 210, 6, 8), (Some 245, 7, 8), (Some 280, 8, 8)]
   \<and> ticks (snd (encodeWebmAnimation2 (env_of 280 []) pal idle))
       = ticks (snd (encodeMp4Animation (env_of 280 []) pal idle))
   \<and> js_mul (Some 8) (stepMs 280 8) = Some 280"
proof -
  have f: "fps_of pal = 25" by (simp add: fps_of_def truthy_def pal_def scenarioA_def)
  have g: "dbl 25 = Some 25" by (simp add: dbl_numeral)
  have v: "validateViewport pal = None"
    "getDuration (env_of 280 []) (animation pal) = Some 280"
    by (simp_all add: validateViewport_def pal_def inputs)
  have q: "\<And>c. \<not> throws (env_of 280 []) c" by (simp add: env_of_def)
  have n: "dbl 280 = Some 280" "dbl (fps_of pal) = Some (fps_of pal)"
    "(0::rat) < 280" "0 < fps_of pal"
    "js_mul (js_div 280 1000) (Some (fps_of pal)) = Some (7881299347898369 / 1125899906842624)"
    "(0::rat) < 7881299347898369 / 1125899906842624"
    "8 = sampleCount 280 (fps_of pal)"
    "(7881299347898369 / 1125899906842624 :: rat) < 2 ^ 53" "(280::rat) \<le> 2 ^ 1022"
    unfolding f by (simp_all add: dbl_numeral product_280 sampleCount_280)
  note h = v n q
  have t: "map (\<lambda>i. (js_mul (Some (of_int i)) (stepMs 280 8), i, 8::int)) [0..8]
      = [(Some 0, 0, 8), (Some 35, 1, 8), (Some 70, 2, 8), (Some 105, 3, 8), (Some 140, 4, 8),
         (Some 175, 5, 8), (Some 210, 6, 8), (Some 245, 7, 8), (Some 280, 8, 8)]"
    by (simp add: stepMs_280 js_mul_def dbl_numeral dbl_zero upto_rec1)
  have l: "js_mul (Some 8) (stepMs 280 8) = Some 280"
    by (simp add: stepMs_280 js_mul_def dbl_numeral)
  have i: "ticks idle = []" by (simp add: idle_def)
  from ticks_follow_the_schedule [OF h refl, of idle "''out''"]
  show ?thesis using v n(1) f g product_280 sampleCount_280 stepMs_280 t l i
    by simp
qed

text \<open>
  C4 as stated fails for a duration of 0 ms: the step \<open>0 / 0\<close> is not a number, step
  times sample count is not a number either, and so is not the duration; the one tick has
  no finite time.
\<close>

theorem zero_duration_step_is_not_a_number:
  "validateViewport scenarioA = None
   \<and> getDuration (env_of 0 []) (animation scenarioA) = Some 0
   \<and> stepMs 0 (sampleCount 0 (fps_of scenarioA)) = None
   \<and> js_mul (Some (of_int (sampleCount 0 (fps_of scenarioA))))
        (stepMs 0 (sampleCount 0 (fps_of scenarioA))) = None
   \<and> ticks (snd (encodeWebmAnimation2 (env_of 0 []) scenarioA idle)) = [(None, 0, 0)]"
  by (simp add: statements collaborators inputs sampleCount_0 stepMs_def js_div_def js_mul_def
        webm_loop.simps)

subsection \<open>C5: errors of the job\<close>

text \<open>
  C5, as amended. In \<open>encodeMp4Animation\<close>, an error thrown by the \<open>try\<close> block reaches
  the caller after the \<open>finally\<close> block has run, provided that no call of the \<open>finally\<close>
  block throws: the canvas properties, the playback and the clock are then as C2 says.
  Nothing is printed.
\<close>

theorem mp4_reraises_after_restoration:
  assumes "validateViewport p = None" "getDuration E (animation p) = Some d"
    "\<not> throws E CreateEncoder" "\<not> throws E Initialize"
    "fst (mp4_try E p d (try_entry E p s)) = Some e"
    "\<not> throws E Delete" "\<not> throws E StopInFinally" "\<not> throws E LoopStart"
  shows "fst (encodeMp4Animation E p s) = Inl e
       \<and> canvas3d (snd (encodeMp4Animation E p s)) = canvas3d s
       \<and> isAnimating (snd (encodeMp4Animation E p s)) = isAnimating s
       \<and> \<not> (isPlaying (snd (encodeMp4Animation E p s)) \<and> \<not> isPlaying s)
       \<and> console (snd (encodeMp4Animation E p s)) = console s"
  using mp4_restored [OF assms(6,7,8,1,2,3,4), of s] assms(5) by simp

text \<open>The clock fails at the second tick.\<close>

theorem mp4_reraises_after_restoration_witness:
  "validateViewport styled = None
   \<and> getDuration (env_of 100 [Tick 1]) (animation styled) = Some 100
   \<and> \<not> throws (env_of 100 [Tick 1]) CreateEncoder
   \<and> \<not> throws (env_of 100 [Tick 1]) Initialize
   \<and> fst (mp4_try (env_of 100 [Tick 1]) styled 100
            (try_entry (env_of 100 [Tick 1]) styled idle)) = Some (Threw (Tick 1))
   \<and> \<not> throws (env_of 100 [Tick 1]) Delete
   \<and> \<not> throws (env_of 100 [Tick 1]) StopInFinally
   \<and> \<not> throws (env_of 100 [Tick 1]) LoopStart
   \<and> fst (encodeMp4Animation (env_of 100 [Tick 1]) styled idle) = Inl (Threw (Tick 1))
   \<and> canvas3d (snd (encodeMp4Animation (env_of 100 [Tick 1]) styled idle))
       = Some \<lparr>backgroundColor = 7, transparentBackground = True\<rparr>
   \<and> isAnimating (snd (encodeMp4Animation (env_of 100 [Tick 1]) styled idle))
   \<and> \<not> isPlaying (snd (encodeMp4Animation (env_of 100 [Tick 1]) styled idle))
   \<and> console (snd (encodeMp4Animation (env_of 100 [Tick 1]) styled idle)) = []"
proof -
  have h: "validateViewport styled = None"
    "getDuration (env_of 100 [Tick 1]) (animation styled) = Some 100"
    "\<not> throws (env_of 100 [Tick 1]) CreateEncoder"
    "\<not> throws (env_of 100 [Tick 1]) Initialize"
    "fst (mp4_try (env_of 100 [Tick 1]) styled 100
            (try_entry (env_of 100 [Tick 1]) styled idle)) = Some (Threw (Tick 1))"
    "\<not> throws (env_of 100 [Tick 1]) Delete"
    "\<not> throws (env_of 100 [Tick 1]) StopInFinally"
    "\<not> throws (env_of 100 [Tick 1]) LoopStart"
    by (simp_all add: statements collaborators inputs try_entry_def sampleCount_100 mp4_loop.simps)
  have i: "canvas3d idle = Some \<lparr>backgroundColor = 7, transparentBackground = True\<rparr>"
    "isAnimating idle" "\<not> isPlaying idle" "console idle = []" by (simp_all add: idle_def)
  from mp4_reraises_after_restoration [OF h]
  show ?thesis using h i by simp
qed

text \<open>
  C5 as stated fails when the restoration itself fails: the clock fails at the second
  tick and then \<open>animation.stop\<close> fails in the \<open>finally\<close> block. The caller receives the
  error of \<open>stop\<close>, not the error of the tick, nothing is printed, and the clock, which
  was running, is not started again.
\<close>

theorem failing_restoration_masks_the_error:
  "fst (mp4_try (env_of 100 [Tick 1, StopInFinally]) styled 100
          (try_entry (env_of 100 [Tick 1, StopInFinally]) styled idle))
     = Some (Threw (Tick 1))
   \<and> fst (encodeMp4Animation (env_of 100 [Tick 1, StopInFinally]) styled idle)
       = Inl (Threw StopInFinally)
   \<and> console (snd (encodeMp4Animation (env_of 100 [Tick 1, StopInFinally]) styled idle))
       = []
   \<and> isAnimating idle
   \<and> \<not> isAnimating (snd (encodeMp4Animation (env_of 100 [Tick 1, StopInFinally]) styled idle))"
  by (simp add: statements collaborators inputs try_entry_def sampleCount_100 mp4_loop.simps)

subsection \<open>C6: even dimensions\<close>

text \<open>
  C6 fails in \<open>encodeWebmAnimation\<close>. For a canvas and a viewport of 801 x 801 the frames
  are captured with the viewport 800 x 800, but both revisions tell ffmpeg that the frames
  are 801 x 801 (\<open>-s ${width}x${height}\<close>). \<open>encodeMp4Animation\<close> gives its encoder the
  even size, 800.
\<close>

theorem webm_encoder_gets_the_canvas_size:
  "validateViewport odd_sized = None
   \<and> map input_width (ffmpeg_commands (snd (encodeWebmAnimation (env_of 100 []) odd_sized ''out'' idle)))
       = [801, 801]
   \<and> map input_height (ffmpeg_commands (snd (encodeWebmAnimation (env_of 100 []) odd_sized ''out'' idle)))
       = [801, 801]
   \<and> map (map (vp_width \<circ> f_viewport) \<circ> input_frames)
       (ffmpeg_commands (snd (encodeWebmAnimation (env_of 100 []) odd_sized ''out'' idle)))
       = [[800, 800, 800, 800], [800, 800, 800, 800]]
   \<and> map (map (vp_height \<circ> f_viewport) \<circ> input_frames)
       (ffmpeg_commands (snd (encodeWebmAnimation (env_of 100 []) odd_sized ''out'' idle)))
       = [[800, 800, 800, 800], [800, 800, 800, 800]]
   \<and> map input_width (ffmpeg_commands (snd (encodeWebmAnimation2 (env_of 100 []) odd_sized idle)))
       = [801]
   \<and> map_option enc_width (encoder (snd (encodeMp4Animation (env_of 100 []) odd_sized idle)))
       = Some 800"
  by (simp add: statements collaborators odd_sized_def inputs sampleCount_100 webm_loop.simps mp4_loop.simps)

subsection \<open>C7: the custom background\<close>

text \<open>
  C7 fails in the revision of \<open>encodeWebmAnimation\<close> at lines 129-230. For a job with the
  custom background 3, on a plugin whose background is opaque, every frame is captured
  with that background and with the transparent background switched on. The other
  revision and \<open>encodeMp4Animation\<close> switch it off, also where it was on before.
\<close>

theorem webm_custom_background_is_transparent:
  "customBackground styled = Some 3
   \<and> map_option transparentBackground (canvas3d opaque) = Some False
   \<and> map (map (map_option transparentBackground \<circ> f_canvas) \<circ> input_frames)
       (ffmpeg_commands (snd (encodeWebmAnimation (env_of 100 []) styled ''out'' opaque)))
       = [[Some True, Some True, Some True, Some True], [Some True, Some True, Some True, Some True]]
   \<and> map (map (map_option backgroundColor \<circ> f_canvas) \<circ> input_frames)
       (ffmpeg_commands (snd (encodeWebmAnimation (env_of 100 []) styled ''out'' opaque)))
       = [[Some 3, Some 3, Some 3, Some 3], [Some 3, Some 3, Some 3, Some 3]]
   \<and> map_option transparentBackground (canvas3d idle) = Some True
   \<and> map (map (map_option transparentBackground \<circ> f_canvas) \<circ> input_frames)
       (ffmpeg_commands (snd (encodeWebmAnimation2 (env_of 100 []) styled idle)))
       = [[Some False, Some False, Some False, Some False]]
   \<and> map (map_option transparentBackground \<circ> f_canvas)
       (rendered (snd (encodeMp4Animation (env_of 100 []) styled idle)))
       = [Some False, Some False, Some False, Some False]"
  by (simp add: statements collaborators opaque_def inputs sampleCount_100 webm_loop.simps mp4_loop.simps)

subsection \<open>C8: the schedule invariant\<close>

text \<open>
  C8, as amended. For a job that passes validation with a duration \<open>d > 0\<close> and a frame
  rate above 0, such that the product \<open>d / 1000 * fps\<close>, as computed in doubles, is a
  number above 0 (it has neither fallen to 0 nor risen to an infinity), the sample count
  is at least 1 and the step is a number above 0. This is the schedule that
  \<open>encodeMp4Animation\<close> (once its encoder is initialized) and both revisions of
  \<open>encodeWebmAnimation\<close> report to the progress: its maximum is the sample count plus 1,
  as long as the product is below \<open>2^53\<close>, where that sum is exact.
\<close>

theorem schedule_of_a_positive_job:
  assumes "validateViewport p = None" "getDuration E (animation p) = Some d"
    "dbl d = Some d" "dbl (fps_of p) = Some (fps_of p)" "0 < d" "0 < fps_of p"
    "js_mul (js_div d 1000) (Some (fps_of p)) = Some P" "0 < P"
  shows "1 \<le> sampleCount d (fps_of p)
     \<and> (\<exists>dt. stepMs d (sampleCount d (fps_of p)) = Some dt \<and> 0 < dt)
     \<and> (P < 2 ^ 53 \<longrightarrow>
          ctx_max (snd (encodeMp4Animation E p s)) =
            (if throws E CreateEncoder \<or> throws E Initialize then ctx_max s
             else sampleCount d (fps_of p) + 1)
        \<and> ctx_max (snd (encodeWebmAnimation E p out s)) = sampleCount d (fps_of p) + 1
        \<and> ctx_max (snd (encodeWebmAnimation2 E p s)) = sampleCount d (fps_of p) + 1)"
proof -
  have n: "1 \<le> sampleCount d (fps_of p)" by (rule schedule_step(1) [OF assms(3-8) refl])
  from schedule_step(2) [OF assms(3-8) refl]
  have st: "\<exists>dt. stepMs d (sampleCount d (fps_of p)) = Some dt \<and> 0 < dt" by blast
  have m: "ctx_max (snd (encodeMp4Animation E p s)) =
         (if throws E CreateEncoder \<or> throws E Initialize then ctx_max s
          else sampleCount d (fps_of p) + 1)"
  proof (cases "throws E CreateEncoder \<or> throws E Initialize")
    case True
    then have "validateViewport p \<noteq> None \<or> getDuration E (animation p) = None
           \<or> throws E CreateEncoder \<or> throws E Initialize" by simp
    from mp4_early_exit [OF this, of s] True show ?thesis by simp
  next
    case False
    then show ?thesis using mp4_ctx_max [OF assms(1,2), of s] by simp
  qed
  show ?thesis
    using n st m webm_ctx_max [OF assms(1,2)] webm2_ctx_max [OF assms(1,2)]
    by simp
qed

text \<open>Scenario A, 5000 ms at 30 frames per second: the product is 150, there are 150
  samples, and the step is the double nearest to 100 / 3 ms.\<close>

theorem schedule_of_a_positive_job_witness:
  "validateViewport scenarioA = None
   \<and> getDuration (env_of 5000 []) (animation scenarioA) = Some 5000
   \<and> dbl 5000 = Some 5000 \<and> fps_of scenarioA = 30 \<and> dbl 30 = Some 30
   \<and> js_mul (js_div 5000 1000) (Some 30) = Some 150 \<and> (150::rat) < 2 ^ 53
   \<and> sampleCount 5000 (fps_of scenarioA) = 150
   \<and> stepMs 5000 (sampleCount 5000 (fps_of scenarioA))
       = Some (4691249611844267 / 140737488355328)
   \<and> ctx_max (snd (encodeMp4Animation (env_of 5000 []) scenarioA idle)) = 151
   \<and> ctx_max (snd (encodeWebmAnimation2 (env_of 5000 []) scenarioA idle)) = 151"
proof -
  have f: "fps_of scenarioA = 30" by (simp add: fps_of_def truthy_def scenarioA_def)
  have g: "dbl 30 = Some 30" by (simp add: dbl_numeral)
  have v: "validateViewport scenarioA = None"
    "getDuration (env_of 5000 []) (animation scenarioA) = Some 5000"
    by (simp_all add: validateViewport_def inputs)
  have p: "js_mul (js_div 5000 1000) (Some 30) = Some 150"
    by (simp add: dbl_numeral js_div_def js_mul_def)
  have m: "dbl 5000 = Some 5000" "dbl (fps_of scenarioA) = Some (fps_of scenarioA)"
    "(0::rat) < 5000" "0 < fps_of scenarioA"
    "js_mul (js_div 5000 1000) (Some (fps_of scenarioA)) = Some 150"
    "(0::rat) < 150"
    unfolding f by (simp_all add: dbl_numeral p)
  note h = v m
  have n: "sampleCount 5000 30 = 150"
    "stepMs 5000 150 = Some (4691249611844267 / 140737488355328)"
    "\<not> throws (env_of 5000 []) CreateEncoder"
    "\<not> throws (env_of 5000 []) Initialize"
    by (simp_all add: sampleCount_5000 stepMs_5000 inputs)
  from schedule_of_a_positive_job [OF h, of idle "''out''"]
  show ?thesis using v m(1) p f g n by simp
qed

text \<open>
  C8 as stated fails for a duration of 0 ms: the job passes validation and the
  duration is defined, the sample count is 0 and the step is not a number. It fails
  also for the least positive duration, \<open>1 / 2^1074\<close> ms: its quotient by 1000 is rounded
  to 0, so the sample count is 0 again, and the step, a quotient by 0, is an infinity.
\<close>

theorem schedule_without_a_sample:
  "validateViewport scenarioA = None
   \<and> getDuration (env_of 0 []) (animation scenarioA) = Some 0
   \<and> sampleCount 0 (fps_of scenarioA) = 0
   \<and> stepMs 0 (sampleCount 0 (fps_of scenarioA)) = None
   \<and> ctx_max (snd (encodeMp4Animation (env_of 0 []) scenarioA idle)) = 1
   \<and> ticks (snd (encodeMp4Animation (env_of 0 []) scenarioA idle)) = [(None, 0, 0)]
   \<and> dbl (1 / 2 ^ 1074) = Some (1 / 2 ^ 1074)
   \<and> getDuration (env_of (1 / 2 ^ 1074) []) (animation scenarioA) = Some (1 / 2 ^ 1074)
   \<and> sampleCount (1 / 2 ^ 1074) (fps_of scenarioA) = 0
   \<and> stepMs (1 / 2 ^ 1074) (sampleCount (1 / 2 ^ 1074) (fps_of scenarioA)) = None"
proof -
  have a: "validateViewport scenarioA = None
   \<and> getDuration (env_of 0 []) (animation scenarioA) = Some 0
   \<and> sampleCount 0 (fps_of scenarioA) = 0
   \<and> stepMs 0 (sampleCount 0 (fps_of scenarioA)) = None
   \<and> ctx_max (snd (encodeMp4Animation (env_of 0 []) scenarioA idle)) = 1
   \<and> ticks (snd (encodeMp4Animation (env_of 0 []) scenarioA idle)) = [(None, 0, 0)]"
    by (simp add: statements collaborators inputs sampleCount_0 stepMs_def js_div_def js_mul_def
          mp4_loop.simps)
  have f: "fps_of scenarioA = 30" by (simp add: fps_of_def truthy_def scenarioA_def)
  have b: "sampleCount (1 / 2 ^ 1074) (fps_of scenarioA) = 0" unfolding f by (rule sampleCount_least)
  have c: "stepMs (1 / 2 ^ 1074) (sampleCount (1 / 2 ^ 1074) (fps_of scenarioA)) = None"
    unfolding b by (simp add: stepMs_def js_div_def)
  have d: "getDuration (env_of (1 / 2 ^ 1074) []) (animation scenarioA) = Some (1 / 2 ^ 1074)"
    by (simp add: env_of_def)
  show ?thesis using a b c d dbl_least by blast
qed

subsection \<open>C9: disposal of the encoder\<close>

text \<open>
  C9, as amended. A job of \<open>encodeMp4Animation\<close> that has created its encoder leaves it
  deleted if and only if \<open>encoder.finalize()\<close> has returned (\<open>if (finalized)
  encoder.delete()\<close>), provided that \<open>delete\<close> itself does not throw.
\<close>

theorem mp4_encoder_deleted_iff_finalized:
  assumes "validateViewport p = None" "getDuration E (animation p) = Some d"
    "\<not> throws E CreateEncoder" "\<not> throws E Delete"
  shows "\<exists>e. encoder (snd (encodeMp4Animation E p s)) = Some e \<and> deleted e = enc_finalized e"
proof (cases "throws E Initialize")
  case True
  then show ?thesis using assms
    by (simp add: encodeMp4Animation_def Let_def mp4_setup_no_initialize collaborators
          configure_flags new_H264MP4Encoder_def)
next
  case False
  obtain r s3 where t: "mp4_try E p d (try_entry E p s) = (r, s3)"
    by (cases "mp4_try E p d (try_entry E p s)")
  have i: "in_try p d (try_entry E p s) s3"
    using mp4_in_try [OF assms(3) False, of p d s] t by simp
  obtain r' s4 where f: "mp4_finally E p (canvas3d s) (isAnimating s) s3 = (r', s4)"
    by (cases "mp4_finally E p (canvas3d s) (isAnimating s) s3")
  have e4: "encoder s4 = (if finalized s3 then map_option (\<lambda>e. e\<lparr>deleted := True\<rparr>) (encoder s3) else encoder s3)"
    using mp4_finally_any [of E p "canvas3d s" "isAnimating s" s3] f assms(4) by simp
  have "snd (encodeMp4Animation E p s) = s4"
    using encodeMp4Animation_try [OF assms(1,2,3) False t f] by simp
  then show ?thesis using e4 i
    by (auto simp: in_try_def try_entry_state [OF assms(3) False] split: option.splits)
qed

text \<open>A job whose \<open>finalize\<close> throws.\<close>

theorem mp4_encoder_deleted_iff_finalized_witness:
  "validateViewport scenarioA = None
   \<and> getDuration (env_of 100 [Finalize]) (animation scenarioA) = Some 100
   \<and> \<not> throws (env_of 100 [Finalize]) CreateEncoder
   \<and> \<not> throws (env_of 100 [Finalize]) Delete
   \<and> (\<exists>e. encoder (snd (encodeMp4Animation (env_of 100 [Finalize]) scenarioA idle)) = Some e
         \<and> deleted e = enc_finalized e)"
proof -
  have h: "validateViewport scenarioA = None"
    "getDuration (env_of 100 [Finalize]) (animation scenarioA) = Some 100"
    "\<not> throws (env_of 100 [Finalize]) CreateEncoder"
    "\<not> throws (env_of 100 [Finalize]) Delete"
    by (simp_all add: validateViewport_def inputs)
  from mp4_encoder_deleted_iff_finalized [OF h, of idle]
  show ?thesis using h by simp
qed

text \<open>
  C9 as stated fails when sampling or finalization fails: the encoder exists and is
  not deleted.
\<close>

theorem failed_sampling_leaves_the_encoder:
  "fst (encodeMp4Animation (env_of 100 [Tick 0]) scenarioA idle) = Inl (Threw (Tick 0))
   \<and> map_option deleted (encoder (snd (encodeMp4Animation (env_of 100 [Tick 0]) scenarioA idle)))
       = Some False
   \<and> fst (encodeMp4Animation (env_of 100 [Finalize]) scenarioA idle) = Inl (Threw Finalize)
   \<and> map_option deleted (encoder (snd (encodeMp4Animation (env_of 100 [Finalize]) scenarioA idle)))
       = Some False"
  by (simp add: statements collaborators inputs sampleCount_100 mp4_loop.simps)

subsection \<open>C10: falsy options\<close>

text \<open>
  C10. In \<open>encodeMp4Animation\<close>, once the encoder is initialized, its frame rate is
  \<open>params.fps\<close> when that is truthy and the default 30 of the encoder otherwise, and its
  quantization parameter is \<open>params.quantizationParameter\<close> when that is truthy and the
  default of the encoder otherwise. So the frame rate is never 0, and it is the frame
  rate of the schedule: the maximum of the progress is the sample count at that rate
  plus 1.
\<close>

theorem mp4_falsy_options_are_unset:
  assumes "validateViewport p = None" "getDuration E (animation p) = Some d"
    "\<not> throws E CreateEncoder" "\<not> throws E Initialize"
  shows "\<exists>e. encoder (snd (encodeMp4Animation E p s)) = Some e
     \<and> frameRate e = (if truthy (fps p) then the (fps p) else 30)
     \<and> enc_quantizationParameter e =
         (if truthy (quantizationParameter p) then the (quantizationParameter p)
          else hme_quantizationParameter E)
     \<and> frameRate e \<noteq> 0
     \<and> ctx_max (snd (encodeMp4Animation E p s)) = sampleCount d (frameRate e) + 1"
proof -
  obtain r s3 where t: "mp4_try E p d (try_entry E p s) = (r, s3)"
    by (cases "mp4_try E p d (try_entry E p s)")
  have i: "in_try p d (try_entry E p s) s3"
    using mp4_in_try [OF assms(3,4), of p d s] t by simp
  obtain r' s4 where f: "mp4_finally E p (canvas3d s) (isAnimating s) s3 = (r', s4)"
    by (cases "mp4_finally E p (canvas3d s) (isAnimating s) s3")
  have e4: "encoder s4 = (if finalized s3 \<and> \<not> throws E Delete then map_option (\<lambda>e. e\<lparr>deleted := True\<rparr>) (encoder s3) else encoder s3)"
    and m4: "ctx_max s4 = ctx_max s3"
    using mp4_finally_any [of E p "canvas3d s" "isAnimating s" s3] f by simp_all
  have "snd (encodeMp4Animation E p s) = s4"
    using encodeMp4Animation_try [OF assms t f] by simp
  then show ?thesis using e4 m4 i
    by (auto simp: in_try_def try_entry_state [OF assms(3,4)] configure_flags new_H264MP4Encoder_def
          truthy_def split: option.splits)
qed

text \<open>A job with \<open>fps = 0\<close> and \<open>quantizationParameter = 0\<close> runs at 30 frames per second
  with the quantization parameter of the library.\<close>

theorem mp4_falsy_options_are_unset_witness:
  "validateViewport unset_options = None
   \<and> getDuration (env_of 5000 []) (animation unset_options) = Some 5000
   \<and> \<not> throws (env_of 5000 []) CreateEncoder
   \<and> \<not> throws (env_of 5000 []) Initialize
   \<and> fps unset_options = Some 0 \<and> quantizationParameter unset_options = Some 0
   \<and> (\<exists>e. encoder (snd (encodeMp4Animation (env_of 5000 []) unset_options idle)) = Some e
         \<and> frameRate e = 30 \<and> enc_quantizationParameter e = 33)
   \<and> ctx_max (snd (encodeMp4Animation (env_of 5000 []) unset_options idle)) = 151"
proof -
  have h: "validateViewport unset_options = None"
    "getDuration (env_of 5000 []) (animation unset_options) = Some 5000"
    "\<not> throws (env_of 5000 []) CreateEncoder"
    "\<not> throws (env_of 5000 []) Initialize"
    by (simp_all add: validateViewport_def unset_options_def inputs)
  have o: "fps unset_options = Some 0" "quantizationParameter unset_options = Some 0"
    "hme_quantizationParameter (env_of 5000 []) = 33"
    "sampleCount 5000 30 = 150"
    by (simp_all add: unset_options_def inputs sampleCount_5000)
  from mp4_falsy_options_are_unset [OF h, of idle]
  show ?thesis using h o by (auto simp: truthy_def)
qed

end
